theory Spec2Isabelle
  imports Main "HOL-Library.AList"
begin

section \<open>Shared notions of the four servers\<close>

text \<open>
  The repository holds four small WebSocket servers: a chat room (single room and
  multi room), a number-guessing game, rock-paper-scissors and snake. Each one is its
  own \<^verbatim>\<open>package main\<close>, so the models below carry a suffix where the programs reuse a
  name: \<open>_c\<close> chat, \<open>_g\<close> guessing, \<open>_r\<close> rock-paper-scissors, \<open>_s\<close> snake.

  A \<^verbatim>\<open>*websocket.Conn\<close> is used for its identity only, so it is a number. A Go
  \<^verbatim>\<open>map\<close> is an association list: \<open>map_of\<close> is the lookup, \<open>AList.update\<close> the
  assignment \<^verbatim>\<open>m[k] = v\<close>, \<open>AList.delete\<close> the builtin \<^verbatim>\<open>delete(m, k)\<close>, and the
  order of the list is the order in which one \<^verbatim>\<open>range\<close> loop visits the entries. Go
  leaves that order unspecified, and two loops over the same map need not agree on it.
  Apart from the order of the effects, the outcome of a loop depends on it in two places
  only, the loop that picks the two players of a rock-paper-scissors round and the loop
  of the snake tick; every theorem below holds for every list, hence for every order.

  What a handler does to the outside world is returned as a list of effects: a call of
  \<^verbatim>\<open>conn.WriteMessage\<close>, a line printed after a failed send, \<^verbatim>\<open>conn.Close\<close>, and an
  \<^verbatim>\<open>INSERT\<close> sent to the database. Whether a write fails is decided by the peer, so it
  is a parameter \<open>fails\<close> of the model: \<open>fails c\<close> says that \<^verbatim>\<open>WriteMessage\<close> on \<open>c\<close>
  returns an error. The line that \<^verbatim>\<open>saveResult\<close> and \<^verbatim>\<open>saveScore\<close> print when the
  database refuses a row is not recorded: the effect is the \<^verbatim>\<open>INSERT\<close> that was sent.
\<close>

type_synonym conn = nat

datatype ('m, 'd) effect =
    WriteMessage conn 'm
  | Println conn
  | Close conn
  | Exec 'd

text \<open>The members that really got message \<open>m\<close>: a write was issued and did not fail.\<close>

definition received :: "(conn \<Rightarrow> bool) \<Rightarrow> ('m, 'd) effect list \<Rightarrow> 'm \<Rightarrow> conn set" where
  "received fails es m = {c. WriteMessage c m \<in> set es \<and> \<not> fails c}"

text \<open>
  \<^verbatim>\<open>rand.Intn(n)\<close> returns a number in \<open>[0, n)\<close> and panics for \<open>n \<le> 0\<close>. The generator
  is an endless supply of raw values; a draw reduces the first one modulo \<open>n\<close> and drops
  it. Every call below passes 100, 20, or a dimension of a snake room. Such a room is
  only made by \<^verbatim>\<open>getRoom\<close>, 20 cells wide and 20 high, and nothing changes its
  dimensions, so the panic is never reached; the tick draws only after a snake has
  passed the wall check, which no snake does in a room without cells
  (\<open>fate_of_Advance_dims\<close>).
\<close>

type_synonym rand = "nat \<Rightarrow> nat"

definition Intn :: "int \<Rightarrow> rand \<Rightarrow> int \<times> rand" where
  "Intn n g = (int (g 0) mod n, \<lambda>i. g (Suc i))"

text \<open>\<^verbatim>\<open>fmt.Sprintf("%d", n)\<close> for a non-negative \<open>n\<close>: the decimal digits.\<close>

fun Sprintf_d :: "nat \<Rightarrow> string" where
  "Sprintf_d n =
     (if n < 10 then [''0123456789'' ! n]
      else Sprintf_d (n div 10) @ [''0123456789'' ! (n mod 10)])"

declare Sprintf_d.simps [simp del]

section \<open>Chat: \<^verbatim>\<open>src/chatroom/main.go\<close> and the first program of \<^verbatim>\<open>src/unnamed/part_000\<close>\<close>

text \<open>
  \<^verbatim>\<open>ChatRoom\<close> (single room) has the client set and the broadcast channel; \<^verbatim>\<open>Room\<close>
  (multi room) has a name as well. The channel is unbuffered: a session's send hands
  the text to the \<^verbatim>\<open>start\<close> goroutine, which then runs one pass of its loop.
\<close>

record ChatRoom =
  clients :: "(conn \<times> bool) list"

record Room_c =
  name_c :: string
  clients_c :: "(conn \<times> bool) list"

text \<open>
  The \<^verbatim>\<open>range\<close> loop of \<^verbatim>\<open>start\<close> (the same in both programs): write to each client;
  on an error print it, close the connection and delete the client from the map.
  The second argument is the list of keys still to visit, the third the live map.
\<close>

fun start_range ::
  "(conn \<Rightarrow> bool) \<Rightarrow> string \<Rightarrow> conn list \<Rightarrow> (conn \<times> bool) list
     \<Rightarrow> (string, unit) effect list \<times> (conn \<times> bool) list" where
  "start_range fails msg [] cl = ([], cl)"
| "start_range fails msg (c # cs) cl =
     (if fails c
      then (case start_range fails msg cs (AList.delete c cl) of
              (es, cl') \<Rightarrow> (WriteMessage c msg # Println c # Close c # es, cl'))
      else (case start_range fails msg cs cl of
              (es, cl') \<Rightarrow> (WriteMessage c msg # es, cl')))"

text \<open>One pass of \<^verbatim>\<open>ChatRoom.start\<close> for the message taken from the channel.\<close>

definition start :: "(conn \<Rightarrow> bool) \<Rightarrow> string \<Rightarrow> ChatRoom \<Rightarrow> (string, unit) effect list \<times> ChatRoom" where
  "start fails msg room =
     (case start_range fails msg (map fst (clients room)) (clients room) of
        (es, cl) \<Rightarrow> (es, room\<lparr>clients := cl\<rparr>))"

text \<open>One pass of \<^verbatim>\<open>Room.start\<close> of the multi-room chat.\<close>

definition start_c :: "(conn \<Rightarrow> bool) \<Rightarrow> string \<Rightarrow> Room_c \<Rightarrow> (string, unit) effect list \<times> Room_c" where
  "start_c fails msg room =
     (case start_range fails msg (map fst (clients_c room)) (clients_c room) of
        (es, cl) \<Rightarrow> (es, room\<lparr>clients_c := cl\<rparr>))"

text \<open>
  The session loop on one inbound text. Single room: \<^verbatim>\<open>room.broadcast <- string(msg)\<close>.
  Multi room: \<^verbatim>\<open>room.broadcast <- fmt.Sprintf("[%s] %s", room.name, msg)\<close>.
\<close>

definition handleConnections_msg ::
  "(conn \<Rightarrow> bool) \<Rightarrow> string \<Rightarrow> ChatRoom \<Rightarrow> (string, unit) effect list \<times> ChatRoom" where
  "handleConnections_msg fails msg room = start fails msg room"

definition handleConnections_msg_c ::
  "(conn \<Rightarrow> bool) \<Rightarrow> string \<Rightarrow> Room_c \<Rightarrow> (string, unit) effect list \<times> Room_c" where
  "handleConnections_msg_c fails msg room =
     start_c fails (''['' @ name_c room @ ''] '' @ msg) room"

text \<open>Joining and leaving: \<^verbatim>\<open>room.clients[conn] = true\<close> and \<^verbatim>\<open>delete(room.clients, conn)\<close>.\<close>

definition handleConnections_join :: "conn \<Rightarrow> ChatRoom \<Rightarrow> ChatRoom" where
  "handleConnections_join c room = room\<lparr>clients := AList.update c True (clients room)\<rparr>"

definition handleConnections_leave :: "conn \<Rightarrow> ChatRoom \<Rightarrow> ChatRoom" where
  "handleConnections_leave c room = room\<lparr>clients := AList.delete c (clients room)\<rparr>"

section \<open>Rock-paper-scissors: the second program of \<^verbatim>\<open>src/snakegame/schema.sql\<close>\<close>

text \<open>
  The texts the server sends are Chinese sentences built by \<^verbatim>\<open>fmt.Sprintf\<close>; a message
  is kept as a constructor with the arguments of its format, in the order of the source:
  \<open>Joined_r id room\<close> (player joined the room), \<open>Left_r id room\<close> (player left the
  room), \<open>Played_r id move\<close> (player played a move) and \<open>Result_r v\<close> (the prefix
  "result:" followed by what \<^verbatim>\<open>decide\<close> returned). \<^verbatim>\<open>decide\<close> returns the word for a
  tie, \<open>Tie\<close>, or the sentence "player ... wins", \<open>Wins id\<close>.
\<close>

datatype verdict = Tie | Wins string

datatype msg_r =
    Joined_r string string
  | Left_r string string
  | Played_r string string
  | Result_r verdict

record Player_r =
  id_r :: string
  conn_r :: conn
  move_r :: string

record Room_r =
  name_r :: string
  players_r :: "(string \<times> Player_r) list"

definition NewRoom_r :: "string \<Rightarrow> Room_r" where
  "NewRoom_r name = \<lparr>name_r = name, players_r = []\<rparr>"

definition decide :: "Player_r \<Rightarrow> Player_r \<Rightarrow> verdict" where
  "decide p1 p2 =
     (if move_r p1 = move_r p2 then Tie
      else if (move_r p1 = ''rock'' \<and> move_r p2 = ''scissors'') \<or>
              (move_r p1 = ''scissors'' \<and> move_r p2 = ''paper'') \<or>
              (move_r p1 = ''paper'' \<and> move_r p2 = ''rock'')
      then Wins (id_r p1)
      else Wins (id_r p2))"

text \<open>\<^verbatim>\<open>Room.broadcast\<close>: a failed write is printed and nothing else happens.\<close>

definition broadcast_r :: "(conn \<Rightarrow> bool) \<Rightarrow> msg_r \<Rightarrow> Room_r \<Rightarrow> (msg_r, unit) effect list" where
  "broadcast_r fails message r =
     concat (map (\<lambda>(k, p).
        if fails (conn_r p) then [WriteMessage (conn_r p) message, Println (conn_r p)]
        else [WriteMessage (conn_r p) message]) (players_r r))"

text \<open>
  A session holds a pointer to its own \<^verbatim>\<open>Player\<close>. The map stores such pointers under
  the player's id, and every player has a connection of its own, so the session's player
  is the entry under its id that has the session's connection. \<open>set_move\<close> is the
  assignment \<^verbatim>\<open>p.move = m\<close> through a pointer taken from the map under key \<open>k\<close>.
\<close>

definition set_own_move :: "string \<Rightarrow> conn \<Rightarrow> string \<Rightarrow> (string \<times> Player_r) list \<Rightarrow> (string \<times> Player_r) list" where
  "set_own_move pid c m ps =
     map (\<lambda>(k, p). if k = pid \<and> conn_r p = c then (k, p\<lparr>move_r := m\<rparr>) else (k, p)) ps"

definition set_move :: "string \<Rightarrow> string \<Rightarrow> (string \<times> Player_r) list \<Rightarrow> (string \<times> Player_r) list" where
  "set_move k m ps = map (\<lambda>(k', p). if k' = k then (k', p\<lparr>move_r := m\<rparr>) else (k', p)) ps"

text \<open>
  The loop that picks \<open>p1\<close> and \<open>p2\<close>: the first entry visited becomes \<open>p1\<close>, every
  later one overwrites \<open>p2\<close>. \<open>None\<close> is the nil pointer.
\<close>

fun pick :: "(string \<times> Player_r) list \<Rightarrow> (string \<times> Player_r) option \<times> (string \<times> Player_r) option
    \<Rightarrow> (string \<times> Player_r) option \<times> (string \<times> Player_r) option" where
  "pick [] acc = acc"
| "pick (e # es) (p1, p2) = (if p1 = None then pick es (Some e, p2) else pick es (p1, Some e))"

text \<open>Joining: the id is \<^verbatim>\<open>"Player" + (len(room.players)+1)\<close>.\<close>

definition handleConnections_join_r ::
  "(conn \<Rightarrow> bool) \<Rightarrow> conn \<Rightarrow> Room_r \<Rightarrow> string \<times> (msg_r, unit) effect list \<times> Room_r" where
  "handleConnections_join_r fails c r =
     (let PlayerID = ''Player'' @ Sprintf_d (length (players_r r) + 1);
          r1 = r\<lparr>players_r := AList.update PlayerID \<lparr>id_r = PlayerID, conn_r = c, move_r = []\<rparr> (players_r r)\<rparr>
      in (PlayerID, broadcast_r fails (Joined_r PlayerID (name_r r1)) r1, r1))"

definition handleConnections_leave_r ::
  "(conn \<Rightarrow> bool) \<Rightarrow> string \<Rightarrow> conn \<Rightarrow> Room_r \<Rightarrow> (msg_r, unit) effect list \<times> Room_r" where
  "handleConnections_leave_r fails PlayerID c r =
     (let r1 = r\<lparr>players_r := AList.delete PlayerID (players_r r)\<rparr>
      in (Close c # broadcast_r fails (Left_r PlayerID (name_r r1)) r1, r1))"

text \<open>
  One pass of the session loop on the inbound text \<open>move\<close>: record it, announce it,
  and resolve the round when the room has two players who both have a move. The empty
  string \<open>[]\<close> is the unset move.
\<close>

definition handleConnections_msg_r ::
  "(conn \<Rightarrow> bool) \<Rightarrow> string \<Rightarrow> conn \<Rightarrow> string \<Rightarrow> Room_r \<Rightarrow> (msg_r, unit) effect list \<times> Room_r" where
  "handleConnections_msg_r fails PlayerID c move r =
     (let r1 = r\<lparr>players_r := set_own_move PlayerID c move (players_r r)\<rparr>;
          es = broadcast_r fails (Played_r PlayerID move) r1
      in if length (players_r r1) = 2
         then (case pick (players_r r1) (None, None) of
                 (Some (k1, p1), Some (k2, p2)) \<Rightarrow>
                   if move_r p1 \<noteq> [] \<and> move_r p2 \<noteq> []
                   then (es @ broadcast_r fails (Result_r (decide p1 p2)) r1,
                         r1\<lparr>players_r := set_move k2 [] (set_move k1 [] (players_r r1))\<rparr>)
                   else (es, r1)
               | _ \<Rightarrow> (es, r1))
         else (es, r1))"

text \<open>The state of the room after the move has been recorded.\<close>

definition recorded :: "string \<Rightarrow> conn \<Rightarrow> string \<Rightarrow> Room_r \<Rightarrow> Room_r" where
  "recorded pid c mv r = r\<lparr>players_r := set_own_move pid c mv (players_r r)\<rparr>"

text \<open>The condition under which the round is resolved.\<close>

definition fires :: "string \<Rightarrow> conn \<Rightarrow> string \<Rightarrow> Room_r \<Rightarrow> bool" where
  "fires pid c mv r \<longleftrightarrow>
     length (players_r r) = 2 \<and> (\<forall>p \<in> set (map snd (players_r (recorded pid c mv r))). move_r p \<noteq> [])"

text \<open>The beats-relation of the game, as the specification words it.\<close>

definition beats :: "string \<Rightarrow> string \<Rightarrow> bool" where
  "beats a b \<longleftrightarrow> (a, b) \<in> {(''rock'', ''scissors''), (''scissors'', ''paper''), (''paper'', ''rock'')}"

definition valid_move :: "string \<Rightarrow> bool" where
  "valid_move m \<longleftrightarrow> m \<in> {''rock'', ''paper'', ''scissors''}"

section \<open>Number guessing: the second program of \<^verbatim>\<open>src/unnamed/part_000\<close>\<close>

text \<open>
  Messages: \<open>Joined_g id room n\<close> and \<open>Left_g id room n\<close> (with the number of players),
  \<open>Invalid_g\<close> (please enter a valid number), \<open>TooSmall\<close>, \<open>TooBig\<close>,
  \<open>Correct id secret\<close> (the player guessed right, the answer is ...) and \<open>NewRound\<close>.
  A row written by \<^verbatim>\<open>saveResult\<close> is the triple of player id, room name and result.
  Go's \<^verbatim>\<open>int\<close> has 64 bits; the secret is in \<open>[1, 100]\<close> and a guess is only compared,
  so the numbers are unbounded integers here.
\<close>

datatype msg_g =
    Joined_g string string nat
  | Left_g string string nat
  | Invalid_g
  | TooSmall
  | TooBig
  | Correct string int
  | NewRound

type_synonym row_g = "string \<times> string \<times> string"

record Player_g =
  id_g :: string
  conn_g :: conn

record Room_g =
  name_g :: string
  players_g :: "(string \<times> Player_g) list"
  secret_g :: int

text \<open>
  The server maps a room name to a pointer to its \<^verbatim>\<open>Room\<close>. A pointer is the index of
  the room in the list of all rooms allocated so far, so two pointers are the same
  instance iff they are the same number.
\<close>

record GameServer_g =
  rooms_g :: "(string \<times> nat) list"
  heap_g :: "Room_g list"

definition NewGameServer_g :: GameServer_g where
  "NewGameServer_g = \<lparr>rooms_g = [], heap_g = []\<rparr>"

text \<open>
  \<^verbatim>\<open>getRoom\<close> has two critical sections. The first holds the read lock and looks the
  name up. The second holds the write lock, looks the name up again and creates the
  room when it is still missing. \<open>None\<close> of the first section is the miss that sends
  the caller to the second.
\<close>

definition getRoom_read_g :: "string \<Rightarrow> GameServer_g \<Rightarrow> nat option" where
  "getRoom_read_g name s = map_of (rooms_g s) name"

definition getRoom_write_g :: "string \<Rightarrow> rand \<Rightarrow> GameServer_g \<Rightarrow> nat \<times> GameServer_g \<times> rand" where
  "getRoom_write_g name g s =
     (case map_of (rooms_g s) name of
        Some room \<Rightarrow> (room, s, g)
      | None \<Rightarrow>
          (case Intn 100 g of (n, g') \<Rightarrow>
             (length (heap_g s),
              s\<lparr>rooms_g := AList.update name (length (heap_g s)) (rooms_g s),
                heap_g := heap_g s @ [\<lparr>name_g = name, players_g = [], secret_g = n + 1\<rparr>]\<rparr>,
              g')))"

definition getRoom_g :: "string \<Rightarrow> rand \<Rightarrow> GameServer_g \<Rightarrow> nat \<times> GameServer_g \<times> rand" where
  "getRoom_g name g s =
     (case getRoom_read_g name s of
        Some room \<Rightarrow> (room, s, g)
      | None \<Rightarrow> getRoom_write_g name g s)"

text \<open>
  Callers of \<^verbatim>\<open>getRoom\<close> running concurrently. A critical section is atomic, so a
  caller is before its read section (\<open>Calling\<close>), between a miss in the read section and
  the write section (\<open>Missed\<close>), or back with its room (\<open>Returned\<close>). \<open>step_g t\<close> lets
  caller \<open>t\<close> run its next critical section, and a schedule is the list of the callers
  in the order in which they get their turns. \<open>getRoom_g\<close> is a caller that gets its
  two turns in a row.
\<close>

datatype call_g = Calling string | Missed string | Returned nat

definition step_g :: "nat \<Rightarrow> GameServer_g \<times> rand \<times> call_g list \<Rightarrow> GameServer_g \<times> rand \<times> call_g list" where
  "step_g t = (\<lambda>(s, g, cs).
     if t < length cs then
       (case cs ! t of
          Calling name \<Rightarrow>
            (case getRoom_read_g name s of
               Some room \<Rightarrow> (s, g, cs[t := Returned room])
             | None \<Rightarrow> (s, g, cs[t := Missed name]))
        | Missed name \<Rightarrow>
            (case getRoom_write_g name g s of (room, s', g') \<Rightarrow> (s', g', cs[t := Returned room]))
        | Returned room \<Rightarrow> (s, g, cs))
     else (s, g, cs))"

definition run_g :: "nat list \<Rightarrow> GameServer_g \<times> rand \<times> call_g list \<Rightarrow> GameServer_g \<times> rand \<times> call_g list" where
  "run_g sched st = fold step_g sched st"

text \<open>\<^verbatim>\<open>Room.broadcast\<close>: the result of each write is dropped.\<close>

definition broadcast_g :: "msg_g \<Rightarrow> Room_g \<Rightarrow> (msg_g, row_g) effect list" where
  "broadcast_g msg r = map (\<lambda>(k, p). WriteMessage (conn_g p) msg) (players_g r)"

definition saveResult :: "Room_g \<Rightarrow> string \<Rightarrow> string \<Rightarrow> (msg_g, row_g) effect" where
  "saveResult r playerID result = Exec (playerID, name_g r, result)"

text \<open>Joining and leaving: the id is \<^verbatim>\<open>"P" + (len(room.players)+1)\<close>.\<close>

definition handleConnections_join_g :: "conn \<Rightarrow> Room_g \<Rightarrow> string \<times> (msg_g, row_g) effect list \<times> Room_g" where
  "handleConnections_join_g c r =
     (let playerID = ''P'' @ Sprintf_d (length (players_g r) + 1);
          r1 = r\<lparr>players_g := AList.update playerID \<lparr>id_g = playerID, conn_g = c\<rparr> (players_g r)\<rparr>
      in (playerID, broadcast_g (Joined_g playerID (name_g r1) (length (players_g r1))) r1, r1))"

definition handleConnections_leave_g :: "string \<Rightarrow> conn \<Rightarrow> Room_g \<Rightarrow> (msg_g, row_g) effect list \<times> Room_g" where
  "handleConnections_leave_g playerID c r =
     (let r1 = r\<lparr>players_g := AList.delete playerID (players_g r)\<rparr>
      in (Close c # broadcast_g (Left_g playerID (name_g r1) (length (players_g r1))) r1, r1))"

text \<open>
  One pass of the session loop. \<open>scan\<close> is what \<^verbatim>\<open>fmt.Sscanf(string(msg), "%d", &guess)\<close>
  made of the inbound text: \<open>None\<close> for an error, \<open>Some guess\<close> otherwise. \<open>c\<close> is the
  session's own connection (\<^verbatim>\<open>player.conn\<close>).
\<close>

definition handleConnections_msg_g ::
  "string \<Rightarrow> conn \<Rightarrow> int option \<Rightarrow> Room_g \<Rightarrow> rand \<Rightarrow> (msg_g, row_g) effect list \<times> Room_g \<times> rand" where
  "handleConnections_msg_g playerID c scan r g =
     (case scan of
        None \<Rightarrow> ([WriteMessage c Invalid_g], r, g)
      | Some guess \<Rightarrow>
          if guess < secret_g r then ([WriteMessage c TooSmall], r, g)
          else if guess > secret_g r then ([WriteMessage c TooBig], r, g)
          else (case Intn 100 g of (n, g') \<Rightarrow>
                  (broadcast_g (Correct playerID (secret_g r)) r
                   @ [saveResult r playerID ''win'']
                   @ map (\<lambda>(k, p). saveResult r (id_g p) ''lose'')
                       (filter (\<lambda>(k, p). id_g p \<noteq> playerID) (players_g r))
                   @ broadcast_g NewRound (r\<lparr>secret_g := n + 1\<rparr>),
                   r\<lparr>secret_g := n + 1\<rparr>, g')))"

text \<open>The effects of the branch for a right guess, with \<open>n\<close> the number drawn for the next secret.\<close>

definition win_effects :: "string \<Rightarrow> Room_g \<Rightarrow> int \<Rightarrow> (msg_g, row_g) effect list" where
  "win_effects pid r n =
     broadcast_g (Correct pid (secret_g r)) r
     @ [saveResult r pid ''win'']
     @ map (\<lambda>(k, p). saveResult r (id_g p) ''lose'') (filter (\<lambda>(k, p). id_g p \<noteq> pid) (players_g r))
     @ broadcast_g NewRound (r\<lparr>secret_g := n + 1\<rparr>)"

section \<open>Snake: \<^verbatim>\<open>src/snakegame/main.go\<close>\<close>

text \<open>
  Coordinates and scores are Go \<^verbatim>\<open>int\<close>s (64 bits). A coordinate of a body is inside
  the grid or one step outside it at most, and a score grows by one per eaten food, so
  no value comes near \<open>2^63\<close> and the numbers are unbounded integers here.
  The field \<open>conn_s\<close> is \<open>None\<close> for the nil pointer.
\<close>

record Point =
  X :: int
  Y :: int

record Snake =
  ID :: string
  Body :: "Point list"
  Dir :: string
  Score :: int
  Alive :: bool
  conn_s :: "conn option"

record Room_s =
  name_s :: string
  width :: int
  height :: int
  players_s :: "(string \<times> Snake) list"
  food :: Point

text \<open>
  Outbound messages, as the JSON objects are built: the welcome, the state of a tick
  (players, food, room, w, h), the leave notice and the pong. A row written by
  \<^verbatim>\<open>saveScore\<close> is the triple of player id, room name and score.
\<close>

datatype msg_s =
    Welcome string string int int Point "(string \<times> Snake) list"
  | State "(string \<times> Snake) list" Point string int int
  | Leave string
  | Pong

type_synonym row_s = "string \<times> string \<times> int"

record GameServer_s =
  rooms_s :: "(string \<times> nat) list"
  heap_s :: "Room_s list"

definition NewGameServer_s :: GameServer_s where
  "NewGameServer_s = \<lparr>rooms_s = [], heap_s = []\<rparr>"

text \<open>
  \<^verbatim>\<open>getRoom\<close> of the snake server is one critical section under the server's mutex.
  The goroutine it starts for a new room (\<^verbatim>\<open>runLoop\<close>) calls \<open>update\<close> on every tick.
\<close>

definition getRoom_s :: "string \<Rightarrow> rand \<Rightarrow> GameServer_s \<Rightarrow> nat \<times> GameServer_s \<times> rand" where
  "getRoom_s name g s =
     (case map_of (rooms_s s) name of
        Some room \<Rightarrow> (room, s, g)
      | None \<Rightarrow>
          (case Intn 20 g of (x, g1) \<Rightarrow>
           case Intn 20 g1 of (y, g2) \<Rightarrow>
             (length (heap_s s),
              s\<lparr>rooms_s := AList.update name (length (heap_s s)) (rooms_s s),
                heap_s := heap_s s @ [\<lparr>name_s = name, width = 20, height = 20, players_s = [],
                                       food = \<lparr>X = x, Y = y\<rparr>\<rparr>]\<rparr>,
              g2)))"

text \<open>Calls of \<^verbatim>\<open>getRoom\<close> one after the other, as the mutex orders them.\<close>

fun getRooms_s :: "string list \<Rightarrow> rand \<Rightarrow> GameServer_s \<Rightarrow> nat list \<times> GameServer_s \<times> rand" where
  "getRooms_s [] g s = ([], s, g)"
| "getRooms_s (name # names) g s =
     (case getRoom_s name g s of (room, s', g') \<Rightarrow>
        (case getRooms_s names g' s' of (rooms, s'', g'') \<Rightarrow> (room # rooms, s'', g'')))"

text \<open>The \<^verbatim>\<open>switch snake.Dir\<close>: the point next to \<open>head\<close> in direction \<open>d\<close>.\<close>

definition step_dir :: "string \<Rightarrow> Point \<Rightarrow> Point" where
  "step_dir d head =
     (if d = ''up'' then head\<lparr>Y := Y head - 1\<rparr>
      else if d = ''down'' then head\<lparr>Y := Y head + 1\<rparr>
      else if d = ''left'' then head\<lparr>X := X head - 1\<rparr>
      else if d = ''right'' then head\<lparr>X := X head + 1\<rparr>
      else head)"

text \<open>
  The loop over all players that looks for another snake (an entry with a different
  \<^verbatim>\<open>ID\<close>) with \<open>next\<close> in its body. It reads the live table \<^verbatim>\<open>r.players\<close> and does not
  look at \<^verbatim>\<open>Alive\<close>.
\<close>

definition otherHit :: "(string \<times> Snake) list \<Rightarrow> Snake \<Rightarrow> Point \<Rightarrow> bool" where
  "otherHit tbl snake next =
     (\<exists>other \<in> set (map snd tbl). ID other \<noteq> ID snake \<and> next \<in> set (Body other))"

text \<open>
  What the checks of one loop pass decide for \<open>snake\<close> in room \<open>r\<close>, in the order of
  the source: skipped (dead or without body), wall, own body, other body, or an advance
  to the next point.
\<close>

datatype fate = Skipped | WallHit | SelfHit | OtherHit | Advance Point

definition fate_of :: "Room_s \<Rightarrow> Snake \<Rightarrow> fate" where
  "fate_of r snake =
     (case Body snake of
        [] \<Rightarrow> Skipped
      | head # _ \<Rightarrow>
          if \<not> Alive snake then Skipped
          else (let next = step_dir (Dir snake) head in
            if X next < 0 \<or> X next \<ge> width r \<or> Y next < 0 \<or> Y next \<ge> height r then WallHit
            else if next \<in> set (Body snake) then SelfHit
            else if otherHit (players_s r) snake next then OtherHit
            else Advance next))"

text \<open>The checks that do not look at the other snakes.\<close>

definition own_fate :: "Room_s \<Rightarrow> Snake \<Rightarrow> fate option" where
  "own_fate r snake =
     (case Body snake of
        [] \<Rightarrow> Some Skipped
      | head # _ \<Rightarrow>
          if \<not> Alive snake then Some Skipped
          else (let next = step_dir (Dir snake) head in
            if X next < 0 \<or> X next \<ge> width r \<or> Y next < 0 \<or> Y next \<ge> height r then Some WallHit
            else if next \<in> set (Body snake) then Some SelfHit
            else None))"

definition saveScore :: "Room_s \<Rightarrow> string \<Rightarrow> int \<Rightarrow> (msg_s, row_s) effect" where
  "saveScore r playerID score = Exec (playerID, name_s r, score)"

text \<open>Writing through the pointer of the \<open>i\<close>-th entry of the table.\<close>

definition put :: "nat \<Rightarrow> Snake \<Rightarrow> Room_s \<Rightarrow> Room_s" where
  "put i snake r = r\<lparr>players_s := (players_s r)[i := (fst (players_s r ! i), snake)]\<rparr>"

text \<open>The three identical blocks \<^verbatim>\<open>if snake.Alive { snake.Alive = false; r.saveScore(...) }\<close>.\<close>

definition die :: "nat \<Rightarrow> Snake \<Rightarrow> Room_s \<Rightarrow> Room_s \<times> (msg_s, row_s) effect list" where
  "die i snake r =
     (if Alive snake then (put i (snake\<lparr>Alive := False\<rparr>) r, [saveScore r (ID snake) (Score snake)])
      else (r, []))"

text \<open>\<^verbatim>\<open>randomEmptyCell\<close>: up to 200 draws of a cell, the first one in no body; else the old food.\<close>

definition occupied :: "(string \<times> Snake) list \<Rightarrow> Point \<Rightarrow> bool" where
  "occupied tbl p = (\<exists>s \<in> set (map snd tbl). p \<in> set (Body s))"

fun randomEmptyCell_loop :: "nat \<Rightarrow> Room_s \<Rightarrow> rand \<Rightarrow> Point \<times> rand" where
  "randomEmptyCell_loop 0 r g = (food r, g)"
| "randomEmptyCell_loop (Suc n) r g =
     (case Intn (width r) g of (x, g1) \<Rightarrow>
      case Intn (height r) g1 of (y, g2) \<Rightarrow>
        if occupied (players_s r) \<lparr>X = x, Y = y\<rparr> then randomEmptyCell_loop n r g2
        else (\<lparr>X = x, Y = y\<rparr>, g2))"

definition randomEmptyCell :: "Room_s \<Rightarrow> rand \<Rightarrow> Point \<times> rand" where
  "randomEmptyCell r g = randomEmptyCell_loop 200 r g"

text \<open>
  One pass of the loop of \<^verbatim>\<open>update\<close>, for the \<open>i\<close>-th entry of the table. The state is
  the room, the generator and the rows saved so far.
\<close>

definition update_at ::
  "nat \<Rightarrow> Room_s \<times> rand \<times> (msg_s, row_s) effect list \<Rightarrow> Room_s \<times> rand \<times> (msg_s, row_s) effect list" where
  "update_at i = (\<lambda>(r, g, es).
     (let snake = snd (players_s r ! i) in
      case fate_of r snake of
        Skipped \<Rightarrow> (r, g, es)
      | WallHit \<Rightarrow> (case die i snake r of (r', e) \<Rightarrow> (r', g, es @ e))
      | SelfHit \<Rightarrow> (case die i snake r of (r', e) \<Rightarrow> (r', g, es @ e))
      | OtherHit \<Rightarrow> (case die i snake r of (r', e) \<Rightarrow> (r', g, es @ e))
      | Advance next \<Rightarrow>
          (let snake1 = snake\<lparr>Body := next # butlast (Body snake)\<rparr>;
               r1 = put i snake1 r
           in if next = food r1
              then (let snake2 = snake1\<lparr>Score := Score snake1 + 1\<rparr>;
                        snake3 = snake2\<lparr>Body := Body snake2 @ [last (Body snake2)]\<rparr>;
                        r2 = put i snake3 r1
                    in case randomEmptyCell r2 g of (p, g') \<Rightarrow> (r2\<lparr>food := p\<rparr>, g', es))
              else (r1, g, es))))"

text \<open>The snake after a pass in which it advanced to \<open>next\<close> and ate: one longer, one point more.\<close>

definition fed :: "Snake \<Rightarrow> Point \<Rightarrow> Snake" where
  "fed s next = s\<lparr>Score := Score s + 1,
                  Body := (next # butlast (Body s)) @ [last (next # butlast (Body s))]\<rparr>"

text \<open>The loop over the first \<open>n\<close> entries, and the whole loop.\<close>

definition update_upto :: "nat \<Rightarrow> Room_s \<Rightarrow> rand \<Rightarrow> Room_s \<times> rand \<times> (msg_s, row_s) effect list" where
  "update_upto n r g = fold update_at [0..<n] (r, g, [])"

definition snapshotPlayers :: "Room_s \<Rightarrow> (string \<times> Snake) list" where
  "snapshotPlayers r = map (\<lambda>(k, s). (k, s\<lparr>conn_s := None\<rparr>)) (players_s r)"

text \<open>Sending \<open>data\<close> to every player that has a connection; the result of a write is dropped.\<close>

definition send_all :: "msg_s \<Rightarrow> (string \<times> Snake) list \<Rightarrow> (msg_s, row_s) effect list" where
  "send_all data tbl =
     concat (map (\<lambda>(k, s). case conn_s s of None \<Rightarrow> [] | Some c \<Rightarrow> [WriteMessage c data]) tbl)"

definition update :: "Room_s \<Rightarrow> rand \<Rightarrow> Room_s \<times> rand \<times> (msg_s, row_s) effect list" where
  "update r g =
     (case update_upto (length (players_s r)) r g of
        (r', g', es) \<Rightarrow>
          (r', g', es @ send_all (State (snapshotPlayers r') (food r') (name_s r') (width r') (height r'))
                           (players_s r')))"

text \<open>
  The food after a pass is in no body, or it is under the head of a snake that ate in
  this tick (\<open>r0\<close> is the room at the start of the tick).
\<close>

definition under_eater :: "Room_s \<Rightarrow> Room_s \<Rightarrow> bool" where
  "under_eater r0 r \<longleftrightarrow>
     (\<exists>j<length (players_s r).
        Body (snd (players_s r ! j)) \<noteq> [] \<and> hd (Body (snd (players_s r ! j))) = food r
        \<and> Score (snd (players_s r ! j)) = Score (snd (players_s r0 ! j)) + 1)"

definition food_ok :: "Room_s \<Rightarrow> Room_s \<Rightarrow> bool" where
  "food_ok r0 r \<longleftrightarrow> \<not> occupied (players_s r) (food r) \<or> under_eater r0 r"

definition no_meal :: "Room_s \<Rightarrow> Room_s \<Rightarrow> bool" where
  "no_meal r0 r \<longleftrightarrow> (\<forall>j<length (players_s r). Score (snd (players_s r ! j)) = Score (snd (players_s r0 ! j)))"

text \<open>\<open>n\<close> ticks of \<^verbatim>\<open>runLoop\<close> in a row.\<close>

fun runLoop :: "nat \<Rightarrow> Room_s \<Rightarrow> rand \<Rightarrow> Room_s \<times> rand" where
  "runLoop 0 r g = (r, g)"
| "runLoop (Suc n) r g =
     (case runLoop n r g of (r', g') \<Rightarrow> case update r' g' of (r'', g'', es) \<Rightarrow> (r'', g''))"

text \<open>
  \<^verbatim>\<open>handleWS\<close>, joining: the id is \<^verbatim>\<open>"P" + (len(room.players)+1)\<close>, the snake starts on a
  random cell, heading right. Leaving (the deferred function of the session): the score
  of the session's snake is saved when it is still alive, the entry under the player's
  id is deleted, and the others are told. The session reads \<^verbatim>\<open>snake.Alive\<close>,
  \<^verbatim>\<open>snake.ID\<close> and \<^verbatim>\<open>snake.Score\<close> through the pointer it got when it joined;
  \<open>snake\<close> is the value found there. It is the entry of the table under \<open>playerID\<close>
  unless a later join has overwritten that entry.
\<close>

definition handleWS_join :: "conn \<Rightarrow> Room_s \<Rightarrow> rand \<Rightarrow> string \<times> (msg_s, row_s) effect list \<times> Room_s \<times> rand" where
  "handleWS_join c r g =
     (let playerID = ''P'' @ Sprintf_d (length (players_s r) + 1) in
      case Intn (width r) g of (x, g1) \<Rightarrow>
      case Intn (height r) g1 of (y, g2) \<Rightarrow>
        (let snake = \<lparr>ID = playerID, Body = [\<lparr>X = x, Y = y\<rparr>], Dir = ''right'', Score = 0,
                      Alive = True, conn_s = Some c\<rparr>;
             r1 = r\<lparr>players_s := AList.update playerID snake (players_s r)\<rparr>
         in (playerID,
             [WriteMessage c (Welcome playerID (name_s r1) (width r1) (height r1) (food r1) (snapshotPlayers r1))],
             r1, g2)))"

definition handleWS_leave :: "string \<Rightarrow> conn \<Rightarrow> Snake \<Rightarrow> Room_s \<Rightarrow> (msg_s, row_s) effect list \<times> Room_s" where
  "handleWS_leave playerID c snake r =
     (let saved = (if Alive snake then [saveScore r (ID snake) (Score snake)] else []);
          r1 = r\<lparr>players_s := AList.delete playerID (players_s r)\<rparr>
      in (saved @ [Close c] @ send_all (Leave playerID) (players_s r1), r1))"

section \<open>Notions used in the proofs\<close>

text \<open>
  A registry of rooms is well formed when the \<open>i\<close>-th entry of the map holds the pointer
  \<open>i\<close> under the name of the \<open>i\<close>-th room allocated, and no name occurs twice.
\<close>

definition wf_reg :: "(string \<times> nat) list \<Rightarrow> string list \<Rightarrow> bool" where
  "wf_reg rooms names \<longleftrightarrow>
     map fst rooms = names \<and> map snd rooms = [0..<length names] \<and> distinct names"

text \<open>
  The invariant of the concurrent callers of \<^verbatim>\<open>getRoom\<close>: the registry is well formed,
  \<open>ns ! t\<close> is the name caller \<open>t\<close> asks for, and a caller that is back holds the room
  registered under its name. \<open>rank\<close> counts the critical sections a caller has left behind.
\<close>

definition wf_g :: "GameServer_g \<Rightarrow> bool" where
  "wf_g s \<longleftrightarrow> wf_reg (rooms_g s) (map name_g (heap_g s))"

definition wf_s :: "GameServer_s \<Rightarrow> bool" where
  "wf_s s \<longleftrightarrow> wf_reg (rooms_s s) (map name_s (heap_s s))"

definition inv_g :: "string list \<Rightarrow> GameServer_g \<times> rand \<times> call_g list \<Rightarrow> bool" where
  "inv_g ns = (\<lambda>(s, g, cs).
     wf_g s \<and> length cs = length ns \<and>
     (\<forall>t < length ns.
        case cs ! t of
          Calling n \<Rightarrow> n = ns ! t
        | Missed n \<Rightarrow> n = ns ! t
        | Returned a \<Rightarrow> map_of (rooms_g s) (ns ! t) = Some a))"

fun rank :: "call_g \<Rightarrow> nat" where
  "rank (Calling n) = 0"
| "rank (Missed n) = 1"
| "rank (Returned a) = 2"

definition call_ok :: "string list \<Rightarrow> GameServer_g \<Rightarrow> nat \<Rightarrow> call_g \<Rightarrow> bool" where
  "call_ok ns s t c =
     (case c of Calling n \<Rightarrow> n = ns ! t | Missed n \<Rightarrow> n = ns ! t
      | Returned a \<Rightarrow> map_of (rooms_g s) (ns ! t) = Some a)"

text \<open>
  One draw of \<^verbatim>\<open>randomEmptyCell\<close>, the expression
  \<^verbatim>\<open>Point{X: rand.Intn(r.width), Y: rand.Intn(r.height)}\<close>, and the cell of the \<open>k\<close>-th draw
  (counted from 0) of a run of draws that starts with the generator \<open>g\<close>.
\<close>

definition draw :: "Room_s \<Rightarrow> rand \<Rightarrow> Point \<times> rand" where
  "draw r g =
     (case Intn (width r) g of (x, g1) \<Rightarrow>
      case Intn (height r) g1 of (y, g2) \<Rightarrow> (\<lparr>X = x, Y = y\<rparr>, g2))"

fun drawn :: "Room_s \<Rightarrow> rand \<Rightarrow> nat \<Rightarrow> Point" where
  "drawn r g 0 = fst (draw r g)"
| "drawn r g (Suc k) = drawn r (snd (draw r g)) k"

text \<open>The cells of a grid \<open>w\<close> wide and \<open>h\<close> high.\<close>

definition cells :: "int \<Rightarrow> int \<Rightarrow> Point list" where
  "cells w h = concat (map (\<lambda>x. map (\<lambda>y. \<lparr>X = int x, Y = int y\<rparr>) [0..<nat h]) [0..<nat w])"

section \<open>Example states\<close>

text \<open>A rock-paper-scissors room of two players who have not moved yet.\<close>

definition two_r :: Room_r where
  "two_r = \<lparr>name_r = ''r1'', players_r =
      [(''Player1'', \<lparr>id_r = ''Player1'', conn_r = 1, move_r = []\<rparr>),
       (''Player2'', \<lparr>id_r = ''Player2'', conn_r = 2, move_r = []\<rparr>)]\<rparr>"

text \<open>The same room when the second player has played scissors.\<close>

definition two_r_scissors :: Room_r where
  "two_r_scissors = \<lparr>name_r = ''r1'', players_r =
      [(''Player1'', \<lparr>id_r = ''Player1'', conn_r = 1, move_r = []\<rparr>),
       (''Player2'', \<lparr>id_r = ''Player2'', conn_r = 2, move_r = ''scissors''\<rparr>)]\<rparr>"

text \<open>The same room when the second player has sent the text banana.\<close>

definition two_r_banana :: Room_r where
  "two_r_banana = \<lparr>name_r = ''r1'', players_r =
      [(''Player1'', \<lparr>id_r = ''Player1'', conn_r = 1, move_r = []\<rparr>),
       (''Player2'', \<lparr>id_r = ''Player2'', conn_r = 2, move_r = ''banana''\<rparr>)]\<rparr>"

text \<open>The guessing room of the scenario in the specification: two players, the secret is 42.\<close>

definition room42 :: Room_g where
  "room42 = \<lparr>name_g = ''r1'', players_g =
      [(''P1'', \<lparr>id_g = ''P1'', conn_g = 1\<rparr>), (''P2'', \<lparr>id_g = ''P2'', conn_g = 2\<rparr>)], secret_g = 42\<rparr>"

text \<open>The guessing room reached when two clients join an empty room and the first one leaves:
  one member, \<open>P2\<close>, is left.\<close>

definition after_one_left_g :: Room_g where
  "after_one_left_g =
     snd (handleConnections_leave_g ''P1'' 1
       (snd (snd (handleConnections_join_g 2
         (snd (snd (handleConnections_join_g 1 \<lparr>name_g = ''r1'', players_g = [], secret_g = 42\<rparr>)))))))"

text \<open>An empty snake room.\<close>

definition empty_s :: Room_s where
  "empty_s = \<lparr>name_s = ''r1'', width = 20, height = 20, players_s = [], food = \<lparr>X = 5, Y = 5\<rparr>\<rparr>"

text \<open>The snake room reached in the same way. The server draws the start cell of a snake; the
  generator here always yields 3.\<close>

definition after_one_left_s :: Room_s where
  "after_one_left_s =
     snd (handleWS_leave ''P1'' 1
       \<lparr>ID = ''P1'', Body = [\<lparr>X = 3, Y = 3\<rparr>], Dir = ''right'', Score = 0, Alive = True, conn_s = Some 1\<rparr>
       (fst (snd (snd (handleWS_join 2
         (fst (snd (snd (handleWS_join 1 empty_s (\<lambda>i. 3))))) (\<lambda>i. 3))))))"

text \<open>Two snakes in a row, both heading right: \<open>P2\<close> on \<open>(6, 5)\<close> is visited first,
  \<open>P1\<close> on \<open>(5, 5)\<close>, right behind it, second.\<close>

definition chase :: Room_s where
  "chase = \<lparr>name_s = ''r1'', width = 20, height = 20, players_s =
      [(''P2'', \<lparr>ID = ''P2'', Body = [\<lparr>X = 6, Y = 5\<rparr>], Dir = ''right'', Score = 0, Alive = True, conn_s = Some 2\<rparr>),
       (''P1'', \<lparr>ID = ''P1'', Body = [\<lparr>X = 5, Y = 5\<rparr>], Dir = ''right'', Score = 0, Alive = True, conn_s = Some 1\<rparr>)],
      food = \<lparr>X = 0, Y = 0\<rparr>\<rparr>"

text \<open>A dead snake on \<open>(6, 5)\<close> and a live one on \<open>(5, 5)\<close> heading right, into it.\<close>

definition blocked :: Room_s where
  "blocked = \<lparr>name_s = ''r1'', width = 20, height = 20, players_s =
      [(''P1'', \<lparr>ID = ''P1'', Body = [\<lparr>X = 6, Y = 5\<rparr>], Dir = ''right'', Score = 0, Alive = False, conn_s = Some 1\<rparr>),
       (''P2'', \<lparr>ID = ''P2'', Body = [\<lparr>X = 5, Y = 5\<rparr>], Dir = ''right'', Score = 0, Alive = True, conn_s = Some 2\<rparr>)],
      food = \<lparr>X = 0, Y = 0\<rparr>\<rparr>"

text \<open>One snake on \<open>(4, 5)\<close> heading right, the food on \<open>(5, 5)\<close> right before it.\<close>

definition meal :: Room_s where
  "meal = \<lparr>name_s = ''r1'', width = 20, height = 20, players_s =
      [(''P1'', \<lparr>ID = ''P1'', Body = [\<lparr>X = 4, Y = 5\<rparr>], Dir = ''right'', Score = 0, Alive = True, conn_s = Some 7\<rparr>)],
      food = \<lparr>X = 5, Y = 5\<rparr>\<rparr>"

text \<open>That room after the snake has eaten, the food not yet replaced.\<close>

definition meal_eaten :: Room_s where
  "meal_eaten = \<lparr>name_s = ''r1'', width = 20, height = 20, players_s =
      [(''P1'', \<lparr>ID = ''P1'', Body = [\<lparr>X = 5, Y = 5\<rparr>, \<lparr>X = 5, Y = 5\<rparr>], Dir = ''right'', Score = 1,
                 Alive = True, conn_s = Some 7\<rparr>)],
      food = \<lparr>X = 5, Y = 5\<rparr>\<rparr>"

text \<open>
  A full board. The food is on \<open>(5, 5)\<close>; on every other cell of the grid lies a
  one-cell snake that is dead, also on \<open>(4, 5)\<close>, where the one live snake \<open>P1\<close> is,
  heading right, for the food.
\<close>

definition bystander :: "Point \<Rightarrow> string \<times> Snake" where
  "bystander p =
     (''P'' @ Sprintf_d (nat (20 * X p + Y p) + 2),
      \<lparr>ID = ''P'' @ Sprintf_d (nat (20 * X p + Y p) + 2), Body = [p], Dir = ''right'', Score = 0,
       Alive = False, conn_s = Some (nat (20 * X p + Y p) + 2)\<rparr>)"

definition crowd :: "(string \<times> Snake) list" where
  "crowd = map bystander (filter (\<lambda>p. p \<noteq> \<lparr>X = 5, Y = 5\<rparr>) (cells 20 20))"

definition crowded :: Room_s where
  "crowded = \<lparr>name_s = ''r1'', width = 20, height = 20, players_s =
      (''P1'', \<lparr>ID = ''P1'', Body = [\<lparr>X = 4, Y = 5\<rparr>], Dir = ''right'', Score = 0, Alive = True, conn_s = Some 1\<rparr>)
        # crowd,
      food = \<lparr>X = 5, Y = 5\<rparr>\<rparr>"

text \<open>That room after \<open>P1\<close> has eaten, the food not yet replaced.\<close>

definition crowded_eaten :: Room_s where
  "crowded_eaten = \<lparr>name_s = ''r1'', width = 20, height = 20, players_s =
      (''P1'', \<lparr>ID = ''P1'', Body = [\<lparr>X = 5, Y = 5\<rparr>, \<lparr>X = 5, Y = 5\<rparr>], Dir = ''right'', Score = 1,
                 Alive = True, conn_s = Some 1\<rparr>)
        # crowd,
      food = \<lparr>X = 5, Y = 5\<rparr>\<rparr>"

section \<open>Lemmas\<close>

subsection \<open>The broadcast loop of the chat servers\<close>

lemma start_range_writes:
  "c \<in> set cs \<Longrightarrow> WriteMessage c msg \<in> set (fst (start_range fails msg cs cl))"
  by (induction cs arbitrary: cl) (auto simp: split_beta)

lemma start_range_writes_only:
  "WriteMessage c m \<in> set (fst (start_range fails msg cs cl)) \<Longrightarrow> c \<in> set cs \<and> m = msg"
  by (induction cs arbitrary: cl) (auto simp: split_beta split: if_splits)

lemma start_range_logs:
  "Println c \<in> set (fst (start_range fails msg cs cl)) \<longleftrightarrow> c \<in> set cs \<and> fails c"
  by (induction cs arbitrary: cl) (auto simp: split_beta)

lemma start_range_closes:
  "Close c \<in> set (fst (start_range fails msg cs cl)) \<longleftrightarrow> c \<in> set cs \<and> fails c"
  by (induction cs arbitrary: cl) (auto simp: split_beta)

lemma delete_as_filter: "AList.delete c cl = filter (\<lambda>e. fst e \<noteq> c) cl"
  by (induction cl) auto

lemma start_range_clients:
  "snd (start_range fails msg cs cl) = filter (\<lambda>e. \<not> (fst e \<in> set cs \<and> fails (fst e))) cl"
proof (induction cs arbitrary: cl)
  case Nil
  then show ?case by simp
next
  case (Cons c cs)
  show ?case
  proof (cases "fails c")
    case True
    have "snd (start_range fails msg (c # cs) cl)
        = filter (\<lambda>e. \<not> (fst e \<in> set cs \<and> fails (fst e))) (filter (\<lambda>e. fst e \<noteq> c) cl)"
      using True Cons.IH by (simp add: split_beta delete_as_filter)
    also have "\<dots> = filter (\<lambda>e. \<not> (fst e \<in> set (c # cs) \<and> fails (fst e))) cl"
      using True by (auto intro: filter_cong)
    finally show ?thesis .
  next
    case False
    have "snd (start_range fails msg (c # cs) cl)
        = filter (\<lambda>e. \<not> (fst e \<in> set cs \<and> fails (fst e))) cl"
      using False Cons.IH by (simp add: split_beta)
    also have "\<dots> = filter (\<lambda>e. \<not> (fst e \<in> set (c # cs) \<and> fails (fst e))) cl"
      using False by (auto intro: filter_cong)
    finally show ?thesis .
  qed
qed

lemma start_fst: "fst (start fails msg room) = fst (start_range fails msg (map fst (clients room)) (clients room))"
  by (simp add: start_def split_beta)

lemma start_snd: "clients (snd (start fails msg room)) = snd (start_range fails msg (map fst (clients room)) (clients room))"
  by (simp add: start_def split_beta)

lemma start_c_fst: "fst (start_c fails msg room) = fst (start_range fails msg (map fst (clients_c room)) (clients_c room))"
  by (simp add: start_c_def split_beta)

lemma start_c_snd: "clients_c (snd (start_c fails msg room)) = snd (start_range fails msg (map fst (clients_c room)) (clients_c room))"
  by (simp add: start_c_def split_beta)

lemma start_range_writes_iff:
  "WriteMessage c m \<in> set (fst (start_range fails msg cs cl)) \<longleftrightarrow> c \<in> set cs \<and> m = msg"
  using start_range_writes start_range_writes_only by blast

lemma start_range_keeps:
  "snd (start_range fails msg (map fst cl) cl) = filter (\<lambda>e. \<not> fails (fst e)) cl"
  unfolding start_range_clients by (rule filter_cong) auto

subsection \<open>The broadcasts of the three games\<close>

lemma broadcast_r_writes:
  "WriteMessage c m \<in> set (broadcast_r fails msg r) \<longleftrightarrow> m = msg \<and> c \<in> conn_r ` snd ` set (players_r r)"
  by (auto simp: broadcast_r_def split: if_splits) force+

lemma broadcast_r_logs:
  "Println c \<in> set (broadcast_r fails msg r) \<longleftrightarrow> c \<in> conn_r ` snd ` set (players_r r) \<and> fails c"
  by (auto simp: broadcast_r_def split: if_splits) force+

lemma broadcast_r_no_close: "Close c \<notin> set (broadcast_r fails msg r)"
  by (auto simp: broadcast_r_def split: if_splits)

lemma keys_set_move: "map fst (set_move k m ps) = map fst ps"
  by (induction ps) (auto simp: set_move_def)

lemma keys_set_own_move: "map fst (set_own_move k c m ps) = map fst ps"
  by (induction ps) (auto simp: set_own_move_def)

lemma handleConnections_msg_r_keys:
  "map fst (players_r (snd (handleConnections_msg_r fails pid c mv r))) = map fst (players_r r)"
  by (auto simp: handleConnections_msg_r_def Let_def keys_set_move keys_set_own_move split: prod.splits option.splits)

lemma broadcast_g_writes:
  "WriteMessage c m \<in> set (broadcast_g msg r) \<longleftrightarrow> m = msg \<and> c \<in> conn_g ` snd ` set (players_g r)"
  by (auto simp: broadcast_g_def) force+

lemma broadcast_g_no_log: "Println c \<notin> set (broadcast_g msg r)" "Close c \<notin> set (broadcast_g msg r)"
  by (auto simp: broadcast_g_def)

lemma send_all_writes:
  "WriteMessage c m \<in> set (send_all data tbl) \<longleftrightarrow> m = data \<and> Some c \<in> conn_s ` snd ` set tbl"
  by (auto simp: send_all_def split: option.splits) force+

lemma send_all_no_log: "Println c \<notin> set (send_all data tbl)" "Close c \<notin> set (send_all data tbl)"
  by (auto simp: send_all_def split: option.splits)

lemma received_start_range:
  "received fails (fst (start_range fails msg (map fst cl) cl)) msg = {c \<in> fst ` set cl. \<not> fails c}"
  by (auto simp: received_def start_range_writes_iff)

lemma received_broadcast_r:
  "received fails (broadcast_r fails m r) m = {c \<in> conn_r ` snd ` set (players_r r). \<not> fails c}"
  by (auto simp: received_def broadcast_r_writes)

lemma received_broadcast_g:
  "received fails (broadcast_g m r) m = {c \<in> conn_g ` snd ` set (players_g r). \<not> fails c}"
  by (auto simp: received_def broadcast_g_writes)

lemma received_send_all:
  "received fails (send_all m tbl) m = {c. Some c \<in> conn_s ` snd ` set tbl \<and> \<not> fails c}"
  by (auto simp: received_def send_all_writes)

subsection \<open>Rock-paper-scissors sessions\<close>

lemma length_two: "length xs = 2 \<longleftrightarrow> (\<exists>a b. xs = [a, b])"
  by (cases xs; cases "tl xs"; cases "tl (tl xs)") auto

lemma length_two_pairs: "length xs = 2 \<Longrightarrow> \<exists>k1 p1 k2 p2. xs = [(k1, p1), (k2, p2)]"
  by (cases xs; cases "tl xs"; cases "tl (tl xs)") auto

lemma length_set_own_move [simp]: "length (set_own_move pid c mv ps) = length ps"
  by (simp add: set_own_move_def)

lemma msg_r_fires:
  assumes "fires pid c mv r"
  shows "handleConnections_msg_r fails pid c mv r =
    (broadcast_r fails (Played_r pid mv) (recorded pid c mv r)
       @ broadcast_r fails (Result_r (decide (snd (players_r (recorded pid c mv r) ! 0))
                                             (snd (players_r (recorded pid c mv r) ! 1)))) (recorded pid c mv r),
     (recorded pid c mv r)\<lparr>players_r := map (\<lambda>(k, p). (k, p\<lparr>move_r := []\<rparr>)) (players_r (recorded pid c mv r))\<rparr>)"
proof -
  from assms have "length (set_own_move pid c mv (players_r r)) = 2"
    by (simp add: fires_def)
  then obtain k1 p1 k2 p2 where ps: "set_own_move pid c mv (players_r r) = [(k1, p1), (k2, p2)]"
    using length_two_pairs by blast
  with assms have "move_r p1 \<noteq> []" "move_r p2 \<noteq> []"
    by (auto simp: fires_def recorded_def)
  with ps show ?thesis
    by (auto simp: handleConnections_msg_r_def recorded_def set_move_def Let_def)
qed

lemma msg_r_quiet:
  assumes "\<not> fires pid c mv r"
  shows "handleConnections_msg_r fails pid c mv r =
    (broadcast_r fails (Played_r pid mv) (recorded pid c mv r), recorded pid c mv r)"
proof (cases "length (players_r r) = 2")
  case True
  then have "length (set_own_move pid c mv (players_r r)) = 2" by simp
  then obtain k1 p1 k2 p2 where ps: "set_own_move pid c mv (players_r r) = [(k1, p1), (k2, p2)]"
    using length_two_pairs by blast
  with assms True have "move_r p1 = [] \<or> move_r p2 = []"
    by (auto simp: fires_def recorded_def)
  with ps True show ?thesis
    by (auto simp: handleConnections_msg_r_def recorded_def Let_def)
next
  case False
  then show ?thesis
    by (simp add: handleConnections_msg_r_def recorded_def Let_def)
qed

lemma decide_valid:
  assumes "valid_move (move_r p1)" "valid_move (move_r p2)"
  shows "decide p1 p2 =
     (if move_r p1 = move_r p2 then Tie
      else if beats (move_r p1) (move_r p2) then Wins (id_r p1) else Wins (id_r p2))"
    and "move_r p1 \<noteq> move_r p2 \<Longrightarrow> \<not> beats (move_r p1) (move_r p2) \<Longrightarrow> beats (move_r p2) (move_r p1)"
  using assms by (auto simp: decide_def beats_def valid_move_def)

lemma decide_second:
  "move_r p1 \<noteq> move_r p2 \<Longrightarrow> \<not> beats (move_r p1) (move_r p2) \<Longrightarrow> decide p1 p2 = Wins (id_r p2)"
  by (auto simp: decide_def beats_def)

lemma invalid_not_beats: "\<not> valid_move a \<Longrightarrow> \<not> beats a b"
  by (auto simp: beats_def valid_move_def)

lemma conns_set_own_move:
  "conn_r ` snd ` set (set_own_move pid c mv ps) = conn_r ` snd ` set ps"
  by (induction ps) (auto simp: set_own_move_def)

lemma conns_recorded:
  "conn_r ` snd ` set (players_r (recorded pid c mv r)) = conn_r ` snd ` set (players_r r)"
  by (simp add: recorded_def conns_set_own_move)

lemma map_of_set_own_move:
  "map_of ps pid = Some p \<Longrightarrow> conn_r p = c \<Longrightarrow>
   map_of (set_own_move pid c mv ps) pid = Some (p\<lparr>move_r := mv\<rparr>)"
  by (induction ps) (auto simp: set_own_move_def split: if_splits)

lemma msg_r_result_iff:
  "(\<exists>c' v. WriteMessage c' (Result_r v) \<in> set (fst (handleConnections_msg_r fails pid c mv r)))
     \<longleftrightarrow> fires pid c mv r"
proof (cases "fires pid c mv r")
  case True
  then have "length (players_r (recorded pid c mv r)) = 2"
    by (simp add: fires_def recorded_def)
  then obtain k1 p1 k2 p2 where "players_r (recorded pid c mv r) = [(k1, p1), (k2, p2)]"
    using length_two_pairs by blast
  then have "conn_r p1 \<in> conn_r ` snd ` set (players_r (recorded pid c mv r))" by simp
  with True show ?thesis
    by (auto simp: msg_r_fires broadcast_r_writes)
next
  case False
  then show ?thesis by (simp add: msg_r_quiet broadcast_r_writes)
qed

subsection \<open>Number guessing sessions\<close>

lemma Intn_range: "0 < n \<Longrightarrow> 0 \<le> fst (Intn n g) \<and> fst (Intn n g) < n"
  by (simp add: Intn_def)

lemma count_list_writes_exec [simp]:
  "count_list (broadcast_g m r) (Exec row) = 0"
  by (simp add: broadcast_g_def count_list_0_iff) auto

lemma exec_notin_broadcast_g [simp]: "Exec row \<notin> set (broadcast_g m r)"
  by (auto simp: broadcast_g_def)

lemma count_list_lose:
  "distinct (map (\<lambda>(k, p). id_g p) ps) \<Longrightarrow>
   count_list (map (\<lambda>(k, p). saveResult r (id_g p) ''lose'') (filter (\<lambda>(k, p). id_g p \<noteq> pid) ps))
     (Exec (q, name_g r, ''lose''))
   = (if q \<noteq> pid \<and> q \<in> (\<lambda>(k, p). id_g p) ` set ps then 1 else 0)"
proof (induction ps)
  case Nil
  then show ?case by simp
next
  case (Cons e ps)
  obtain k p where e: "e = (k, p)" by (cases e)
  from Cons.prems have d: "distinct (map (\<lambda>(k, p). id_g p) ps)"
    and n: "id_g p \<notin> (\<lambda>(k, p). id_g p) ` set ps"
    by (auto simp: e)
  show ?case
    using Cons.IH [OF d] n by (auto simp: e saveResult_def)
qed

lemma count_list_lose_win [simp]:
  "count_list (map (\<lambda>(k, p). saveResult r (id_g p) ''lose'') ps) (Exec (q, n, ''win'')) = 0"
  by (induction ps) (auto simp: saveResult_def)

lemma msg_g_low:
  "guess < secret_g r \<Longrightarrow>
   handleConnections_msg_g pid c (Some guess) r g = ([WriteMessage c TooSmall], r, g)"
  by (simp add: handleConnections_msg_g_def)

lemma msg_g_high:
  "guess > secret_g r \<Longrightarrow>
   handleConnections_msg_g pid c (Some guess) r g = ([WriteMessage c TooBig], r, g)"
  by (simp add: handleConnections_msg_g_def)

lemma msg_g_win:
  "handleConnections_msg_g pid c (Some (secret_g r)) r g =
     (win_effects pid r (fst (Intn 100 g)), r\<lparr>secret_g := fst (Intn 100 g) + 1\<rparr>, snd (Intn 100 g))"
  by (simp add: handleConnections_msg_g_def win_effects_def split_beta)

lemma win_effects_count_win: "count_list (win_effects pid r n) (Exec (pid, name_g r, ''win'')) = 1"
  by (simp add: win_effects_def) (simp add: saveResult_def)

lemma win_effects_count_lose:
  "distinct (map (\<lambda>(k, p). id_g p) (players_g r)) \<Longrightarrow>
   count_list (win_effects pid r n) (Exec (q, name_g r, ''lose''))
     = (if q \<noteq> pid \<and> q \<in> (\<lambda>(k, p). id_g p) ` set (players_g r) then 1 else 0)"
  by (simp add: win_effects_def count_list_lose) (simp add: saveResult_def)

lemma win_effects_writes:
  "WriteMessage c' m \<in> set (win_effects pid r n) \<longleftrightarrow>
     (m = Correct pid (secret_g r) \<or> m = NewRound) \<and> c' \<in> conn_g ` snd ` set (players_g r)"
  by (auto simp: win_effects_def broadcast_g_writes saveResult_def)

lemma handleConnections_msg_g_players:
  "players_g (fst (snd (handleConnections_msg_g pid c scan r g))) = players_g r"
  by (simp add: handleConnections_msg_g_def split_beta split: option.splits)

subsection \<open>Joining and leaving\<close>

lemma Sprintf_d_digits [simp]:
  "Sprintf_d (Suc 0) = ''1''" "Sprintf_d (Suc (Suc 0)) = ''2''" "Sprintf_d (Suc (Suc (Suc 0))) = ''3''"
  by (simp_all add: Sprintf_d.simps)

lemma update_fresh: "k \<notin> fst ` set al \<Longrightarrow> AList.update k v al = al @ [(k, v)]"
  by (induction al) auto

lemma delete_fresh_snoc: "k \<notin> fst ` set al \<Longrightarrow> AList.delete k (al @ [(k, v)]) = al"
  by (induction al) auto

text \<open>Joining and then leaving, when the new id is not in use.\<close>

lemma join_leave_fresh_g:
  assumes "''P'' @ Sprintf_d (length (players_g r) + 1) \<notin> fst ` set (players_g r)"
  shows "players_g (snd (handleConnections_leave_g (fst (handleConnections_join_g c r)) c
            (snd (snd (handleConnections_join_g c r))))) = players_g r"
  using assms
  by (simp add: handleConnections_join_g_def handleConnections_leave_g_def Let_def
      update_fresh delete_fresh_snoc)

lemma join_leave_fresh_s:
  assumes "''P'' @ Sprintf_d (length (players_s r) + 1) \<notin> fst ` set (players_s r)"
    and "0 < width r" "0 < height r"
  shows "players_s (snd (handleWS_leave (fst (handleWS_join c r g)) c snake
            (fst (snd (snd (handleWS_join c r g)))))) = players_s r"
  using assms(1)
  by (simp add: handleWS_join_def handleWS_leave_def Let_def split_beta
      update_fresh delete_fresh_snoc)

subsection \<open>The room registries\<close>

lemma wf_reg_empty: "wf_reg [] []"
  by (simp add: wf_reg_def)

lemma wf_reg_insert:
  assumes "wf_reg rooms names" "map_of rooms name = None"
  shows "wf_reg (AList.update name (length names) rooms) (names @ [name])"
proof -
  from assms(2) have fresh: "name \<notin> fst ` set rooms"
    by (simp add: map_of_eq_None_iff)
  then have "AList.update name (length names) rooms = rooms @ [(name, length names)]"
    by (rule update_fresh)
  moreover from assms(1) fresh have "name \<notin> set names"
    by (auto simp: wf_reg_def)
  ultimately show ?thesis
    using assms(1) by (simp add: wf_reg_def)
qed

lemma wf_reg_lookup:
  assumes "wf_reg rooms names" "map_of rooms name = Some a"
  shows "a < length names \<and> names ! a = name"
proof -
  from assms(2) have "(name, a) \<in> set rooms" by (rule map_of_SomeD)
  then obtain i where i: "i < length rooms" "rooms ! i = (name, a)"
    by (auto simp: in_set_conv_nth)
  from assms(1) have l: "length rooms = length names"
    by (metis length_map wf_reg_def)
  from assms(1) i l have "map snd rooms ! i = [0..<length names] ! i"
    by (simp add: wf_reg_def)
  with i l have "a = i" by simp
  moreover from assms(1) i l have "names ! i = map fst rooms ! i"
    by (simp add: wf_reg_def)
  ultimately show ?thesis using i l by simp
qed

lemma map_of_update_mono:
  "map_of rooms n = Some a \<Longrightarrow> map_of rooms name = None \<Longrightarrow>
   map_of (AList.update name b rooms) n = Some a"
  by (auto simp: AList.update_conv')

lemma getRoom_write_g_wf: "wf_g s \<Longrightarrow> wf_g (fst (snd (getRoom_write_g name g s)))"
  using wf_reg_insert [of "rooms_g s" "map name_g (heap_g s)" name]
  by (auto simp: getRoom_write_g_def wf_g_def split_beta split: option.splits)

lemma getRoom_write_g_result:
  "map_of (rooms_g (fst (snd (getRoom_write_g name g s)))) name = Some (fst (getRoom_write_g name g s))"
  by (auto simp: getRoom_write_g_def split_beta AList.update_conv' split: option.splits)

lemma getRoom_write_g_mono:
  "map_of (rooms_g s) n = Some a \<Longrightarrow> map_of (rooms_g (fst (snd (getRoom_write_g name g s)))) n = Some a"
  by (auto simp: getRoom_write_g_def split_beta map_of_update_mono split: option.splits)

lemma getRoom_s_wf: "wf_s s \<Longrightarrow> wf_s (fst (snd (getRoom_s name g s)))"
  using wf_reg_insert [of "rooms_s s" "map name_s (heap_s s)" name]
  by (auto simp: getRoom_s_def wf_s_def split_beta split: option.splits)

lemma getRoom_s_result:
  "map_of (rooms_s (fst (snd (getRoom_s name g s)))) name = Some (fst (getRoom_s name g s))"
  by (auto simp: getRoom_s_def split_beta AList.update_conv' split: option.splits)

lemma getRoom_s_mono:
  "map_of (rooms_s s) n = Some a \<Longrightarrow> map_of (rooms_s (fst (snd (getRoom_s name g s)))) n = Some a"
  by (auto simp: getRoom_s_def split_beta map_of_update_mono split: option.splits)

lemma getRoom_g_result:
  "map_of (rooms_g (fst (snd (getRoom_g name g s)))) name = Some (fst (getRoom_g name g s))"
  by (auto simp: getRoom_g_def getRoom_read_g_def getRoom_write_g_def split_beta AList.update_conv'
      split: option.splits)

lemma getRoom_g_again:
  assumes "getRoom_g name g s = (a, s', g')"
  shows "getRoom_g name g2 s' = (a, s', g2)"
proof (cases "map_of (rooms_g s) name")
  case None
  with assms have "a = fst (getRoom_write_g name g s)" "s' = fst (snd (getRoom_write_g name g s))"
    by (auto simp: getRoom_g_def getRoom_read_g_def)
  with getRoom_write_g_result [of name g s] show ?thesis
    by (simp add: getRoom_g_def getRoom_read_g_def)
next
  case (Some b)
  with assms show ?thesis
    by (auto simp: getRoom_g_def getRoom_read_g_def)
qed

lemma getRoom_s_again:
  assumes "getRoom_s name g s = (a, s', g')"
  shows "getRoom_s name g2 s' = (a, s', g2)"
proof -
  from assms have "a = fst (getRoom_s name g s)" "s' = fst (snd (getRoom_s name g s))"
    by simp_all
  with getRoom_s_result [of name g s] show ?thesis
    by (simp add: getRoom_s_def)
qed

lemma inv_g_init: "inv_g ns (NewGameServer_g, g, map Calling ns)"
  by (simp add: inv_g_def wf_g_def NewGameServer_g_def wf_reg_empty)

lemma inv_g_alt:
  "inv_g ns (s, g, cs) \<longleftrightarrow> wf_g s \<and> length cs = length ns \<and> (\<forall>t < length ns. call_ok ns s t (cs ! t))"
  by (simp add: inv_g_def call_ok_def)

lemma call_ok_mono:
  assumes "call_ok ns s t c" "\<And>n a. map_of (rooms_g s) n = Some a \<Longrightarrow> map_of (rooms_g s') n = Some a"
  shows "call_ok ns s' t c"
  using assms by (cases c) (auto simp: call_ok_def)

lemma inv_g_update:
  assumes "inv_g ns (s, g, cs)" "wf_g s'"
    and "\<And>n a. map_of (rooms_g s) n = Some a \<Longrightarrow> map_of (rooms_g s') n = Some a"
    and "call_ok ns s' t c"
  shows "inv_g ns (s', g', cs[t := c])"
  unfolding inv_g_alt
proof (intro conjI allI impI)
  show "wf_g s'" by fact
  show "length (cs[t := c]) = length ns" using assms(1) by (simp add: inv_g_alt)
  fix u assume u: "u < length ns"
  from assms(1) u have "call_ok ns s u (cs ! u)" and "length cs = length ns"
    by (simp_all add: inv_g_alt)
  then have "call_ok ns s' u (cs ! u)" using assms(3) by (auto intro: call_ok_mono)
  with assms(4) u \<open>length cs = length ns\<close> show "call_ok ns s' u (cs[t := c] ! u)"
    by (cases "u = t") simp_all
qed

lemma inv_g_step:
  assumes "inv_g ns st"
  shows "inv_g ns (step_g t st)"
proof -
  obtain s g cs where st: "st = (s, g, cs)" by (cases st)
  from assms have inv: "inv_g ns (s, g, cs)" by (simp add: st)
  then have wf: "wf_g s" and len: "length cs = length ns"
    by (simp_all add: inv_g_alt)
  show ?thesis
  proof (cases "t < length cs")
    case False
    with assms show ?thesis by (simp add: step_g_def st)
  next
    case True
    with inv len have ok: "call_ok ns s t (cs ! t)" by (simp add: inv_g_alt)
    show ?thesis
    proof (cases "cs ! t")
      case (Calling n)
      with ok have n: "n = ns ! t" by (simp add: call_ok_def)
      show ?thesis
      proof (cases "getRoom_read_g n s")
        case None
        with Calling True have "step_g t st = (s, g, cs[t := Missed n])"
          by (simp add: step_g_def st)
        moreover have "inv_g ns (s, g, cs[t := Missed n])"
          using wf n by (intro inv_g_update [OF inv]) (simp_all add: call_ok_def)
        ultimately show ?thesis by simp
      next
        case (Some a)
        with Calling True have "step_g t st = (s, g, cs[t := Returned a])"
          by (simp add: step_g_def st)
        moreover have "inv_g ns (s, g, cs[t := Returned a])"
          using wf n Some by (intro inv_g_update [OF inv]) (simp_all add: call_ok_def getRoom_read_g_def)
        ultimately show ?thesis by simp
      qed
    next
      case (Missed n)
      with ok have n: "n = ns ! t" by (simp add: call_ok_def)
      let ?w = "getRoom_write_g n g s"
      from Missed True have "step_g t st = (fst (snd ?w), snd (snd ?w), cs[t := Returned (fst ?w)])"
        by (simp add: step_g_def st split_beta)
      moreover have "inv_g ns (fst (snd ?w), snd (snd ?w), cs[t := Returned (fst ?w)])"
        using wf n
        by (intro inv_g_update [OF inv])
          (simp_all add: call_ok_def getRoom_write_g_wf getRoom_write_g_mono getRoom_write_g_result)
      ultimately show ?thesis by simp
    next
      case (Returned a)
      with True assms show ?thesis by (simp add: step_g_def st)
    qed
  qed
qed

lemma inv_g_run: "inv_g ns st \<Longrightarrow> inv_g ns (run_g sched st)"
  unfolding run_g_def by (induction sched arbitrary: st) (simp_all add: inv_g_step)

lemma step_g_length: "length (snd (snd (step_g t st))) = length (snd (snd st))"
  by (cases st) (auto simp: step_g_def split_beta split: call_g.splits option.splits)

lemma step_g_rank:
  assumes "u < length (snd (snd st))"
  shows "min 2 (rank (snd (snd st) ! u) + (if u = t then 1 else 0)) \<le> rank (snd (snd (step_g t st)) ! u)"
  using assms
  by (cases st) (auto simp: step_g_def split_beta nth_list_update split: call_g.splits option.splits)

lemma run_g_rank:
  assumes "u < length (snd (snd st))"
  shows "min 2 (rank (snd (snd st) ! u) + count_list sched u) \<le> rank (snd (snd (run_g sched st)) ! u)"
  using assms
proof (induction sched arbitrary: st)
  case Nil
  then show ?case by (simp add: run_g_def)
next
  case (Cons t sched)
  have l: "u < length (snd (snd (step_g t st)))"
    using Cons.prems by (simp add: step_g_length)
  from Cons.IH [OF l] step_g_rank [OF Cons.prems, of t]
  show ?case by (auto simp: run_g_def)
qed

lemma rank_2: "2 \<le> rank c \<Longrightarrow> \<exists>a. c = Returned a"
  by (cases c) auto

lemma getRooms_s_inv:
  assumes "wf_s s" "getRooms_s ns g s = (bs, s', g')"
  shows "wf_s s' \<and> length bs = length ns
    \<and> (\<forall>n a. map_of (rooms_s s) n = Some a \<longrightarrow> map_of (rooms_s s') n = Some a)
    \<and> (\<forall>i<length ns. map_of (rooms_s s') (ns ! i) = Some (bs ! i))"
  using assms
proof (induction ns arbitrary: g s bs s' g')
  case Nil
  then show ?case by simp
next
  case (Cons name ns)
  let ?c = "getRoom_s name g s"
  let ?r = "getRooms_s ns (snd (snd ?c)) (fst (snd ?c))"
  from Cons.prems(2) have bs: "bs = fst ?c # fst ?r" and s': "s' = fst (snd ?r)"
    by (auto simp: split_beta)
  have wf1: "wf_s (fst (snd ?c))" using Cons.prems(1) by (rule getRoom_s_wf)
  have "?r = (fst ?r, fst (snd ?r), snd (snd ?r))" by simp
  from Cons.IH [OF wf1 this]
  have ih: "wf_s (fst (snd ?r))" "length (fst ?r) = length ns"
    "\<And>n a. map_of (rooms_s (fst (snd ?c))) n = Some a \<Longrightarrow> map_of (rooms_s (fst (snd ?r))) n = Some a"
    "\<And>i. i < length ns \<Longrightarrow> map_of (rooms_s (fst (snd ?r))) (ns ! i) = Some (fst ?r ! i)"
    by auto
  have mono: "map_of (rooms_s s') n = Some a" if "map_of (rooms_s s) n = Some a" for n a
    using that ih(3) getRoom_s_mono by (simp add: s')
  have hd: "map_of (rooms_s s') name = Some (fst ?c)"
    using ih(3) getRoom_s_result by (simp add: s')
  have "map_of (rooms_s s') ((name # ns) ! i) = Some (bs ! i)" if "i < length (name # ns)" for i
    using that hd ih(4) by (cases i) (simp_all add: bs s')
  with ih(1,2) mono show ?case by (simp add: bs s')
qed

lemma wf_s_init: "wf_s NewGameServer_s"
  by (simp add: wf_s_def NewGameServer_s_def wf_reg_empty)

lemma wf_g_lookup:
  "wf_g s \<Longrightarrow> map_of (rooms_g s) n = Some a \<Longrightarrow> a < length (heap_g s) \<and> name_g (heap_g s ! a) = n"
  using wf_reg_lookup [of "rooms_g s" "map name_g (heap_g s)" n a] by (auto simp: wf_g_def)

lemma wf_s_lookup:
  "wf_s s \<Longrightarrow> map_of (rooms_s s) n = Some a \<Longrightarrow> a < length (heap_s s) \<and> name_s (heap_s s ! a) = n"
  using wf_reg_lookup [of "rooms_s s" "map name_s (heap_s s)" n a] by (auto simp: wf_s_def)

lemma getRoom_g_two_steps:
  assumes "t < length cs" "cs ! t = Calling name"
  shows "step_g t (step_g t (s, g, cs)) =
     (fst (snd (getRoom_g name g s)), snd (snd (getRoom_g name g s)), cs[t := Returned (fst (getRoom_g name g s))])"
  using assms
  by (cases "getRoom_read_g name s") (simp_all add: step_g_def getRoom_g_def split_beta)

subsection \<open>The snake tick\<close>

text \<open>A snake advances only in a room that has cells, so the draws of a tick never panic.\<close>

lemma fate_of_Advance_dims:
  "fate_of r snake = Advance p \<Longrightarrow> 0 < width r \<and> 0 < height r"
  by (auto simp: fate_of_def Let_def split: list.splits if_splits)

lemma put_keys: "map fst (players_s (put i s r)) = map fst (players_s r)"
proof (cases "i < length (players_s r)")
  case True
  then show ?thesis by (simp add: put_def map_update list_update_same_conv)
next
  case False
  then show ?thesis by (simp add: put_def list_update_beyond)
qed

lemma die_keys: "map fst (players_s (fst (die i s r))) = map fst (players_s r)"
  by (simp add: die_def put_keys)

lemma update_at_keys: "map fst (players_s (fst (update_at i st))) = map fst (players_s (fst st))"
  by (cases st) (auto simp: update_at_def Let_def split_beta put_keys die_keys split: fate.splits)

lemma fold_update_at_keys: "map fst (players_s (fst (fold update_at is st))) = map fst (players_s (fst st))"
  by (induction "is" arbitrary: st) (simp_all add: update_at_keys)

lemma update_keys: "map fst (players_s (fst (update r g))) = map fst (players_s r)"
  by (simp add: update_def update_upto_def split_beta fold_update_at_keys)

lemma put_players [simp]: "players_s (put i s r) = (players_s r)[i := (fst (players_s r ! i), s)]"
  by (simp add: put_def)

lemma put_fields [simp]:
  "width (put i s r) = width r" "height (put i s r) = height r"
  "name_s (put i s r) = name_s r" "food (put i s r) = food r"
  by (simp_all add: put_def)

lemma put_put [simp]: "put i s (put i s' r) = put i s r"
  by (cases "i < length (players_s r)") (simp_all add: put_def list_update_beyond)

lemma fate_Skipped_iff: "fate_of r s = Skipped \<longleftrightarrow> Body s = [] \<or> \<not> Alive s"
  by (auto simp: fate_of_def Let_def split: list.splits)

lemma fate_alive: "fate_of r s \<noteq> Skipped \<Longrightarrow> Alive s \<and> Body s \<noteq> []"
  by (simp add: fate_Skipped_iff)

text \<open>What one pass of the loop does, by the fate of the snake.\<close>

lemma update_at_skip:
  "fate_of r (snd (players_s r ! i)) = Skipped \<Longrightarrow> update_at i (r, g, es) = (r, g, es)"
  by (simp add: update_at_def)

lemma update_at_die:
  assumes "fate_of r (snd (players_s r ! i)) \<in> {WallHit, SelfHit, OtherHit}"
  shows "update_at i (r, g, es) =
    (put i ((snd (players_s r ! i))\<lparr>Alive := False\<rparr>) r, g,
     es @ [saveScore r (ID (snd (players_s r ! i))) (Score (snd (players_s r ! i)))])"
proof -
  from assms have "Alive (snd (players_s r ! i))"
    using fate_alive [of r "snd (players_s r ! i)"] by auto
  with assms show ?thesis
    by (auto simp: update_at_def die_def Let_def)
qed

lemma update_at_move:
  assumes "fate_of r (snd (players_s r ! i)) = Advance next" "next \<noteq> food r"
  shows "update_at i (r, g, es) =
    (put i ((snd (players_s r ! i))\<lparr>Body := next # butlast (Body (snd (players_s r ! i)))\<rparr>) r, g, es)"
  using assms by (simp add: update_at_def Let_def)

lemma update_at_eat:
  assumes "fate_of r (snd (players_s r ! i)) = Advance (food r)"
  shows "update_at i (r, g, es) =
    ((put i (fed (snd (players_s r ! i)) (food r)) r)
        \<lparr>food := fst (randomEmptyCell (put i (fed (snd (players_s r ! i)) (food r)) r) g)\<rparr>,
     snd (randomEmptyCell (put i (fed (snd (players_s r ! i)) (food r)) r) g), es)"
  using assms by (simp add: update_at_def Let_def fed_def split_beta)

lemma fate_cases:
  obtains (skip) "fate_of r s = Skipped"
  | (die) "fate_of r s \<in> {WallHit, SelfHit, OtherHit}"
  | (move) nxt where "fate_of r s = Advance nxt" "nxt \<noteq> food r"
  | (eat) "fate_of r s = Advance (food r)"
  by (cases "fate_of r s") auto

text \<open>One pass writes to the entry of its own snake only, and keeps the key.\<close>

lemma update_at_players:
  "\<exists>s'. players_s (fst (update_at i (r, g, es))) = (players_s r)[i := (fst (players_s r ! i), s')]"
proof (cases rule: fate_cases [of r "snd (players_s r ! i)"])
  case skip
  then have "players_s (fst (update_at i (r, g, es))) = (players_s r)[i := (fst (players_s r ! i), snd (players_s r ! i))]"
    by (simp add: update_at_skip)
  then show ?thesis ..
next
  case die
  show ?thesis unfolding update_at_die [OF die] fst_conv put_players by (rule exI, rule refl)
next
  case (move nxt)
  show ?thesis unfolding update_at_move [OF move] fst_conv put_players by (rule exI, rule refl)
next
  case eat
  then have "players_s (fst (update_at i (r, g, es)))
      = (players_s r)[i := (fst (players_s r ! i), fed (snd (players_s r ! i)) (food r))]"
    by (simp add: update_at_eat)
  then show ?thesis ..
qed

lemma update_at_length [simp]: "length (players_s (fst (update_at i st))) = length (players_s (fst st))"
proof -
  obtain r g es where st: "st = (r, g, es)" by (cases st)
  from update_at_players [of i r g es] show ?thesis by (auto simp: st)
qed

lemma update_at_other:
  "j \<noteq> i \<Longrightarrow> players_s (fst (update_at i st)) ! j = players_s (fst st) ! j"
proof -
  assume ji: "j \<noteq> i"
  obtain r g es where st: "st = (r, g, es)" by (cases st)
  from update_at_players [of i r g es] ji show ?thesis by (auto simp: st)
qed

lemma update_at_dims [simp]:
  "width (fst (update_at i st)) = width (fst st)"
  "height (fst (update_at i st)) = height (fst st)"
  "name_s (fst (update_at i st)) = name_s (fst st)"
proof -
  obtain r g es where st: "st = (r, g, es)" by (cases st)
  show "width (fst (update_at i st)) = width (fst st)"
    "height (fst (update_at i st)) = height (fst st)"
    "name_s (fst (update_at i st)) = name_s (fst st)"
    unfolding st
    by (cases rule: fate_cases [of r "snd (players_s r ! i)"];
        simp add: update_at_skip update_at_die update_at_move update_at_eat)+
qed

lemma update_upto_0 [simp]: "update_upto 0 r g = (r, g, [])"
  by (simp add: update_upto_def)

lemma update_upto_Suc: "update_upto (Suc n) r g = update_at n (update_upto n r g)"
  by (simp add: update_upto_def)

lemma update_upto_length [simp]: "length (players_s (fst (update_upto n r g))) = length (players_s r)"
  by (induction n) (simp_all add: update_upto_Suc)

lemma update_upto_dims [simp]:
  "width (fst (update_upto n r g)) = width r"
  "height (fst (update_upto n r g)) = height r"
  "name_s (fst (update_upto n r g)) = name_s r"
  by (induction n) (simp_all add: update_upto_Suc)

text \<open>The entries the loop has not reached yet are those of the start of the tick.\<close>

lemma update_upto_later:
  "n \<le> j \<Longrightarrow> players_s (fst (update_upto n r g)) ! j = players_s r ! j"
  by (induction n) (simp_all add: update_upto_Suc update_at_other)

text \<open>The entries the loop has left behind stay as they are.\<close>

lemma update_upto_earlier:
  "j < m \<Longrightarrow> m \<le> n \<Longrightarrow>
   players_s (fst (update_upto n r g)) ! j = players_s (fst (update_upto m r g)) ! j"
proof (induction n)
  case 0
  then show ?case by simp
next
  case (Suc n)
  show ?case
  proof (cases "m = Suc n")
    case True
    then show ?thesis by simp
  next
    case False
    with Suc.prems have "m \<le> n" "j \<noteq> n" by simp_all
    with Suc.IH Suc.prems(1) show ?thesis
      by (simp add: update_upto_Suc update_at_other)
  qed
qed

text \<open>Passes over dead snakes change nothing.\<close>

lemma update_upto_all_dead:
  assumes "\<forall>j. m \<le> j \<and> j < n \<longrightarrow> \<not> Alive (snd (players_s r ! j))" "m \<le> n"
  shows "fst (update_upto n r g) = fst (update_upto m r g)"
  using assms
proof (induction n)
  case 0
  then show ?case by simp
next
  case (Suc n)
  show ?case
  proof (cases "m = Suc n")
    case True
    then show ?thesis by simp
  next
    case False
    with Suc.prems have mn: "m \<le> n" by simp
    from Suc.prems(1) mn have d: "\<not> Alive (snd (players_s r ! n))" by simp
    obtain r' g' es' where st: "update_upto n r g = (r', g', es')"
      by (cases "update_upto n r g")
    have "players_s r' ! n = players_s r ! n"
      using update_upto_later [of n n r g] st by simp
    with d have "fate_of r' (snd (players_s r' ! n)) = Skipped"
      by (simp add: fate_Skipped_iff)
    then have "update_at n (r', g', es') = (r', g', es')" by (rule update_at_skip)
    then have "fst (update_upto (Suc n) r g) = fst (update_upto n r g)"
      by (simp add: update_upto_Suc st)
    with Suc.IH Suc.prems(1) mn show ?thesis by simp
  qed
qed

lemma update_room: "fst (update r g) = fst (update_upto (length (players_s r)) r g)"
  by (simp add: update_def split_beta)

lemma update_upto_mixed:
  assumes "i \<le> length (players_s r)"
  shows "players_s (fst (update_upto i r g))
     = take i (players_s (fst (update r g))) @ drop i (players_s r)"
proof (rule nth_equalityI)
  show "length (players_s (fst (update_upto i r g)))
      = length (take i (players_s (fst (update r g))) @ drop i (players_s r))"
    using assms by (simp add: update_room)
next
  fix j assume "j < length (players_s (fst (update_upto i r g)))"
  then have j: "j < length (players_s r)" by simp
  show "players_s (fst (update_upto i r g)) ! j
      = (take i (players_s (fst (update r g))) @ drop i (players_s r)) ! j"
  proof (cases "j < i")
    case True
    with assms update_upto_earlier [of j i "length (players_s r)" r g] show ?thesis
      by (simp add: nth_append update_room)
  next
    case False
    with assms j update_upto_later [of i j r g] show ?thesis
      by (simp add: nth_append update_room min_def)
  qed
qed

lemma update_entry:
  assumes "i < length (players_s r)"
  shows "players_s (fst (update r g)) ! i = players_s (fst (update_at i (update_upto i r g))) ! i"
  using assms update_upto_earlier [of i "Suc i" "length (players_s r)" r g]
  by (simp add: update_room update_upto_Suc)

lemma fate_of_cong:
  "width r = width r' \<Longrightarrow> height r = height r' \<Longrightarrow> players_s r = players_s r' \<Longrightarrow>
   fate_of r s = fate_of r' s"
  by (simp add: fate_of_def Let_def split: list.splits)

lemma fate_of_own:
  "fate_of r s = (case own_fate r s of
      Some f \<Rightarrow> f
    | None \<Rightarrow> if otherHit (players_s r) s (step_dir (Dir s) (hd (Body s))) then OtherHit
              else Advance (step_dir (Dir s) (hd (Body s))))"
  by (auto simp: fate_of_def own_fate_def Let_def split: list.splits)

lemma own_fate_cong: "width r = width r' \<Longrightarrow> height r = height r' \<Longrightarrow> own_fate r s = own_fate r' s"
  by (simp add: own_fate_def Let_def split: list.splits)

lemma update_length [simp]: "length (players_s (fst (update r g))) = length (players_s r)"
  by (simp add: update_room)

lemma update_dims [simp]:
  "width (fst (update r g)) = width r" "height (fst (update r g)) = height r"
  by (simp_all add: update_room)

text \<open>A dead snake is skipped by every pass of the loop.\<close>

lemma update_upto_dead:
  assumes "\<not> Alive (snd (players_s r ! i))"
  shows "players_s (fst (update_upto n r g)) ! i = players_s r ! i"
proof (induction n)
  case 0
  show ?case by simp
next
  case (Suc n)
  show ?case
  proof (cases "n = i")
    case False
    with Suc.IH show ?thesis by (simp add: update_upto_Suc update_at_other)
  next
    case True
    obtain r' g' es' where st: "update_upto n r g = (r', g', es')"
      by (cases "update_upto n r g")
    from Suc.IH st True have "players_s r' ! i = players_s r ! i" by simp
    with assms have "fate_of r' (snd (players_s r' ! i)) = Skipped"
      by (simp add: fate_Skipped_iff)
    then have "update_at i (r', g', es') = (r', g', es')" by (rule update_at_skip)
    with Suc.IH st True show ?thesis by (simp add: update_upto_Suc)
  qed
qed

lemma update_dead:
  "\<not> Alive (snd (players_s r ! i)) \<Longrightarrow> players_s (fst (update r g)) ! i = players_s r ! i"
  by (simp add: update_room update_upto_dead)

lemma runLoop_length [simp]: "length (players_s (fst (runLoop n r g))) = length (players_s r)"
  by (induction n) (simp_all add: split_beta)

lemma runLoop_dead:
  "\<not> Alive (snd (players_s r ! i)) \<Longrightarrow> players_s (fst (runLoop n r g)) ! i = players_s r ! i"
  by (induction n) (simp_all add: split_beta update_dead)

text \<open>A snake that heads into the body of a dead one dies in the tick and stays where it is.\<close>

lemma update_hits_dead:
  assumes i: "i < length (players_s r)" and j: "j < length (players_s r)"
    and dead: "\<not> Alive (snd (players_s r ! i))"
    and alive: "Alive (snd (players_s r ! j))" "Body (snd (players_s r ! j)) \<noteq> []"
    and ids: "ID (snd (players_s r ! i)) \<noteq> ID (snd (players_s r ! j))"
    and hit: "step_dir (Dir (snd (players_s r ! j))) (hd (Body (snd (players_s r ! j))))
                \<in> set (Body (snd (players_s r ! i)))"
  shows "players_s (fst (update r g)) ! j
     = (fst (players_s r ! j), (snd (players_s r ! j))\<lparr>Alive := False\<rparr>)"
proof -
  obtain r' g' es' where st: "update_upto j r g = (r', g', es')"
    by (cases "update_upto j r g")
  let ?s = "snd (players_s r ! j)"
  have own: "players_s r' ! j = players_s r ! j"
    using update_upto_later [of j j r g] st by simp
  have other: "players_s r' ! i = players_s r ! i"
    using update_upto_dead [OF dead, of j g] st by simp
  have len: "length (players_s r') = length (players_s r)"
    using update_upto_length [of j r g] st by simp
  from i len have "snd (players_s r' ! i) \<in> set (map snd (players_s r'))"
    by (auto simp: in_set_conv_nth intro!: image_eqI [where x = "players_s r' ! i"])
  with other ids hit have "otherHit (players_s r') ?s (step_dir (Dir ?s) (hd (Body ?s)))"
    unfolding otherHit_def by (intro bexI [where x = "snd (players_s r' ! i)"]) simp_all
  with alive have "fate_of r' ?s \<in> {WallHit, SelfHit, OtherHit}"
    by (auto simp: fate_of_def Let_def split: list.splits)
  with own have "update_at j (r', g', es') =
      (put j (?s\<lparr>Alive := False\<rparr>) r', g', es' @ [saveScore r' (ID ?s) (Score ?s)])"
    using update_at_die [of r' j g' es'] by simp
  with own j len have "players_s (fst (update_at j (update_upto j r g))) ! j
      = (fst (players_s r ! j), ?s\<lparr>Alive := False\<rparr>)"
    by (simp add: st)
  with update_entry [OF j, of g] show ?thesis by simp
qed

lemma handleWS_leave_players:
  "players_s (snd (handleWS_leave playerID c snake r)) = filter (\<lambda>e. fst e \<noteq> playerID) (players_s r)"
  by (simp add: handleWS_leave_def Let_def delete_as_filter)

lemma runLoop_Suc:
  "fst (runLoop (Suc n) r g) = fst (update (fst (runLoop n r g)) (snd (runLoop n r g)))"
  by (simp add: split_beta)

lemma occupied_nth: "occupied tbl p \<longleftrightarrow> (\<exists>j<length tbl. p \<in> set (Body (snd (tbl ! j))))"
proof
  assume "occupied tbl p"
  then obtain e where "e \<in> set tbl" "p \<in> set (Body (snd e))"
    by (auto simp: occupied_def)
  then show "\<exists>j<length tbl. p \<in> set (Body (snd (tbl ! j)))"
    by (metis in_set_conv_nth)
next
  assume "\<exists>j<length tbl. p \<in> set (Body (snd (tbl ! j)))"
  then obtain j where "j < length tbl" "p \<in> set (Body (snd (tbl ! j)))" by blast
  then show "occupied tbl p"
    unfolding occupied_def by (intro bexI [of _ "snd (tbl ! j)"]) simp_all
qed

lemma occupied_update:
  "occupied (tbl[n := (k, s')]) p \<Longrightarrow> occupied tbl p \<or> p \<in> set (Body s')"
proof -
  assume "occupied (tbl[n := (k, s')]) p"
  then obtain j where j: "j < length tbl" "p \<in> set (Body (snd (tbl[n := (k, s')] ! j)))"
    by (auto simp: occupied_nth)
  show ?thesis
  proof (cases "j = n")
    case True
    with j show ?thesis by simp
  next
    case False
    with j have "p \<in> set (Body (snd (tbl ! j)))" by simp
    with j(1) show ?thesis by (auto simp: occupied_nth)
  qed
qed

lemma randomEmptyCell_loop_free:
  "\<not> occupied (players_s r) (fst (randomEmptyCell_loop n r g)) \<or> fst (randomEmptyCell_loop n r g) = food r"
  by (induction n arbitrary: g) (auto simp: split_beta)

lemma randomEmptyCell_free:
  "\<not> occupied (players_s r) (fst (randomEmptyCell r g)) \<or> fst (randomEmptyCell r g) = food r"
  unfolding randomEmptyCell_def by (rule randomEmptyCell_loop_free)

text \<open>Which of the draws is returned.\<close>

lemma randomEmptyCell_loop_draw:
  "randomEmptyCell_loop (Suc n) r g =
     (if occupied (players_s r) (fst (draw r g)) then randomEmptyCell_loop n r (snd (draw r g))
      else draw r g)"
  by (simp add: draw_def split_beta)

lemma randomEmptyCell_loop_first:
  "k < n \<Longrightarrow> \<forall>j<k. occupied (players_s r) (drawn r g j) \<Longrightarrow>
   \<not> occupied (players_s r) (drawn r g k) \<Longrightarrow>
   fst (randomEmptyCell_loop n r g) = drawn r g k"
proof (induction n arbitrary: g k)
  case 0
  then show ?case by simp
next
  case (Suc n)
  show ?case
  proof (cases k)
    case 0
    with Suc.prems show ?thesis by (simp add: randomEmptyCell_loop_draw del: randomEmptyCell_loop.simps)
  next
    case (Suc k')
    from Suc.prems(2) Suc have o: "occupied (players_s r) (fst (draw r g))"
      by (metis drawn.simps(1) zero_less_Suc)
    have a: "\<forall>j<k'. occupied (players_s r) (drawn r (snd (draw r g)) j)"
      using Suc.prems(2) Suc by (metis Suc_less_eq drawn.simps(2))
    have b: "\<not> occupied (players_s r) (drawn r (snd (draw r g)) k')"
      using Suc.prems(3) Suc by simp
    have c: "k' < n" using Suc.prems(1) Suc by simp
    have "fst (randomEmptyCell_loop n r (snd (draw r g))) = drawn r (snd (draw r g)) k'"
      using c a b by (rule Suc.IH)
    with o Suc show ?thesis by (simp add: randomEmptyCell_loop_draw del: randomEmptyCell_loop.simps)
  qed
qed

lemma randomEmptyCell_loop_none:
  "\<forall>k<n. occupied (players_s r) (drawn r g k) \<Longrightarrow> fst (randomEmptyCell_loop n r g) = food r"
proof (induction n arbitrary: g)
  case 0
  then show ?case by simp
next
  case (Suc n)
  from Suc.prems have o: "occupied (players_s r) (fst (draw r g))"
    by (metis drawn.simps(1) zero_less_Suc)
  have "\<forall>k<n. occupied (players_s r) (drawn r (snd (draw r g)) k)"
    using Suc.prems by (metis Suc_less_eq drawn.simps(2))
  then have "fst (randomEmptyCell_loop n r (snd (draw r g))) = food r" by (rule Suc.IH)
  with o show ?case by (simp add: randomEmptyCell_loop_draw del: randomEmptyCell_loop.simps)
qed

lemma randomEmptyCell_first:
  "k < 200 \<Longrightarrow> \<forall>j<k. occupied (players_s r) (drawn r g j) \<Longrightarrow>
   \<not> occupied (players_s r) (drawn r g k) \<Longrightarrow> fst (randomEmptyCell r g) = drawn r g k"
  unfolding randomEmptyCell_def by (rule randomEmptyCell_loop_first)

lemma randomEmptyCell_none:
  "\<forall>k<200. occupied (players_s r) (drawn r g k) \<Longrightarrow> fst (randomEmptyCell r g) = food r"
  unfolding randomEmptyCell_def by (rule randomEmptyCell_loop_none)

lemma drawn_const: "drawn r (\<lambda>i. c) k = \<lparr>X = int c mod width r, Y = int c mod height r\<rparr>"
  by (induction k) (simp_all add: draw_def Intn_def)


text \<open>Every draw is a cell of the grid.\<close>

lemma cells_iff:
  "p \<in> set (cells w h) \<longleftrightarrow> (\<exists>x<nat w. \<exists>y<nat h. p = \<lparr>X = int x, Y = int y\<rparr>)"
  unfolding cells_def by (simp only: set_concat set_map set_upt) force

lemma cells_mem:
  assumes "0 \<le> X p" "X p < w" "0 \<le> Y p" "Y p < h"
  shows "p \<in> set (cells w h)"
proof -
  have "nat (X p) < nat w" "nat (Y p) < nat h" using assms by simp_all
  moreover have "X p = int (nat (X p))" "Y p = int (nat (Y p))" using assms by simp_all
  then have "p = \<lparr>X = int (nat (X p)), Y = int (nat (Y p))\<rparr>" 
    by (metis Point.surjective old.unit.exhaust Point.select_convs)
  ultimately show ?thesis unfolding cells_iff by blast
qed

lemma draw_in_grid:
  "0 < width r \<Longrightarrow> 0 < height r \<Longrightarrow> fst (draw r g) \<in> set (cells (width r) (height r))"
  by (rule cells_mem) (simp_all add: draw_def split_beta Intn_def)

lemma drawn_in_grid:
  "0 < width r \<Longrightarrow> 0 < height r \<Longrightarrow> drawn r g k \<in> set (cells (width r) (height r))"
  by (induction k arbitrary: g) (simp_all add: draw_in_grid)

lemma fed_simps [simp]:
  "Score (fed s p) = Score s + 1" "Body (fed s p) \<noteq> []" "hd (Body (fed s p)) = p"
  "Body s \<noteq> [] \<Longrightarrow> length (Body (fed s p)) = length (Body s) + 1"
  by (simp_all add: fed_def)

lemma pass_food:
  assumes n: "n < length (players_s r)" and own: "players_s r ! n = players_s r0 ! n"
    and inv: "no_meal r0 r \<or> food_ok r0 r"
  shows "no_meal r0 (fst (update_at n (r, g, es))) \<or> food_ok r0 (fst (update_at n (r, g, es)))"
proof (cases rule: fate_cases [of r "snd (players_s r ! n)"])
  case skip
  with inv show ?thesis by (simp add: update_at_skip)
next
  case die
  let ?s = "snd (players_s r ! n)"
  let ?r' = "put n (?s\<lparr>Alive := False\<rparr>) r"
  have nm: "no_meal r0 ?r'" if "no_meal r0 r"
    using that n by (auto simp: no_meal_def nth_list_update)
  have oc: "occupied (players_s ?r') p \<longleftrightarrow> occupied (players_s r) p" for p
    using n by (auto simp: occupied_nth nth_list_update split: if_splits)
  have ue: "under_eater r0 ?r'" if "under_eater r0 r"
    using that n by (auto simp: under_eater_def nth_list_update)
  from inv nm oc ue show ?thesis
    by (auto simp: update_at_die [OF die] food_ok_def)
next
  case (move nxt)
  let ?s = "snd (players_s r ! n)"
  let ?r' = "put n (?s\<lparr>Body := nxt # butlast (Body ?s)\<rparr>) r"
  have nm: "no_meal r0 ?r'" if "no_meal r0 r"
    using that n by (auto simp: no_meal_def nth_list_update)
  have oc: "\<not> occupied (players_s ?r') (food r)" if "\<not> occupied (players_s r) (food r)"
  proof
    assume "occupied (players_s ?r') (food r)"
    then have "occupied (players_s r) (food r) \<or> food r \<in> set (nxt # butlast (Body ?s))"
      using occupied_update [of "players_s r" n _ "?s\<lparr>Body := nxt # butlast (Body ?s)\<rparr>" "food r"]
      by simp
    moreover have "food r \<in> set (butlast (Body ?s)) \<Longrightarrow> occupied (players_s r) (food r)"
      using n by (auto simp: occupied_nth dest: in_set_butlastD)
    ultimately show False using that move(2) by auto
  qed
  have ue: "under_eater r0 ?r'" if "under_eater r0 r"
  proof -
    from that obtain j where j: "j < length (players_s r)"
      "Body (snd (players_s r ! j)) \<noteq> []" "hd (Body (snd (players_s r ! j))) = food r"
      "Score (snd (players_s r ! j)) = Score (snd (players_s r0 ! j)) + 1"
      by (auto simp: under_eater_def)
    from j(4) own have "j \<noteq> n" by auto
    with j show ?thesis by (auto simp: under_eater_def nth_list_update)
  qed
  from inv nm oc ue show ?thesis
    by (auto simp: update_at_move [OF move] food_ok_def)
next
  case eat
  let ?s = "snd (players_s r ! n)"
  let ?r2 = "put n (fed ?s (food r)) r"
  let ?p = "fst (randomEmptyCell ?r2 g)"
  have "\<not> occupied (players_s ?r2) ?p \<or> ?p = food r"
    using randomEmptyCell_free [of ?r2 g] by simp
  moreover have "under_eater r0 (?r2\<lparr>food := ?p\<rparr>)" if "?p = food r"
    unfolding under_eater_def using n own that
    by (intro exI [of _ n]) simp
  ultimately have "food_ok r0 (?r2\<lparr>food := ?p\<rparr>)"
    by (auto simp: food_ok_def)
  then show ?thesis by (simp add: update_at_eat [OF eat])
qed

lemma update_upto_food:
  assumes "n \<le> length (players_s r)"
  shows "no_meal r (fst (update_upto n r g)) \<or> food_ok r (fst (update_upto n r g))"
  using assms
proof (induction n)
  case 0
  show ?case by (simp add: no_meal_def)
next
  case (Suc n)
  obtain r' g' es' where st: "update_upto n r g = (r', g', es')"
    by (cases "update_upto n r g")
  have len: "length (players_s r') = length (players_s r)"
    using update_upto_length [of n r g] st by simp
  have own: "players_s r' ! n = players_s r ! n"
    using update_upto_later [of n n r g] st by simp
  from Suc have inv: "no_meal r r' \<or> food_ok r r'" by (simp add: st)
  from Suc.prems len have n: "n < length (players_s r')" by simp
  from pass_food [OF n own inv, of g' es'] show ?case
    by (simp add: update_upto_Suc st)
qed

lemma update_food:
  assumes "j < length (players_s r)"
    "Score (snd (players_s (fst (update r g)) ! j)) \<noteq> Score (snd (players_s r ! j))"
  shows "food_ok r (fst (update r g))"
proof -
  from update_upto_food [of "length (players_s r)" r g]
  have "no_meal r (fst (update r g)) \<or> food_ok r (fst (update r g))"
    by (simp add: update_room)
  moreover from assms have "\<not> no_meal r (fst (update r g))"
    by (auto simp: no_meal_def)
  ultimately show ?thesis by blast
qed

lemma update_eater:
  assumes i: "i < length (players_s r)"
    and eat: "fate_of (fst (update_upto i r g)) (snd (players_s r ! i)) = Advance (food (fst (update_upto i r g)))"
  shows "snd (players_s (fst (update r g)) ! i) = fed (snd (players_s r ! i)) (food (fst (update_upto i r g)))"
proof -
  obtain r' g' es' where st: "update_upto i r g = (r', g', es')"
    by (cases "update_upto i r g")
  have own: "players_s r' ! i = players_s r ! i"
    using update_upto_later [of i i r g] st by simp
  have len: "length (players_s r') = length (players_s r)"
    using update_upto_length [of i r g] st by simp
  from eat own have "fate_of r' (snd (players_s r' ! i)) = Advance (food r')"
    by (simp add: st)
  from update_at_eat [OF this, of g' es'] own i len
  have "snd (players_s (fst (update_at i (update_upto i r g))) ! i) = fed (snd (players_s r ! i)) (food r')"
    by (simp add: st)
  with update_entry [OF i, of g] show ?thesis by (simp add: st)
qed

lemma update_meal_food:
  assumes i: "i < length (players_s r)"
    and eat: "fate_of (fst (update_upto i r g)) (snd (players_s r ! i)) = Advance (food (fst (update_upto i r g)))"
  shows "food (fst (update_upto (Suc i) r g))
     = fst (randomEmptyCell (put i (fed (snd (players_s r ! i)) (food (fst (update_upto i r g))))
                               (fst (update_upto i r g)))
                            (fst (snd (update_upto i r g))))"
proof -
  obtain r' g' es' where st: "update_upto i r g = (r', g', es')"
    by (cases "update_upto i r g")
  have own: "players_s r' ! i = players_s r ! i"
    using update_upto_later [of i i r g] st by simp
  from eat own have "fate_of r' (snd (players_s r' ! i)) = Advance (food r')"
    by (simp add: st)
  from update_at_eat [OF this, of g' es'] own show ?thesis
    by (simp add: update_upto_Suc st)
qed

lemma put_fed_occupied:
  "i < length (players_s r) \<Longrightarrow> occupied (players_s (put i (fed s p) r)) p"
  by (auto simp: occupied_nth fed_def intro!: exI [of _ i])

lemma update_at_no_write:
  assumes "\<forall>c m. WriteMessage c m \<notin> set (snd (snd st))"
  shows "\<forall>c m. WriteMessage c m \<notin> set (snd (snd (update_at i st)))"
proof -
  obtain r g es where st: "st = (r, g, es)" by (cases st)
  show ?thesis
    using assms unfolding st
    by (cases rule: fate_cases [of r "snd (players_s r ! i)"])
      (simp_all add: update_at_skip update_at_die update_at_move update_at_eat saveScore_def)
qed

lemma update_upto_no_write: "\<forall>c m. WriteMessage c m \<notin> set (snd (snd (update_upto n r g)))"
  by (induction n) (simp_all add: update_upto_Suc update_at_no_write)

lemma update_writes:
  "WriteMessage c m \<in> set (snd (snd (update r g))) \<Longrightarrow>
   m = State (snapshotPlayers (fst (update r g))) (food (fst (update r g))) (name_s r) (width r) (height r)"
  using update_upto_no_write [of "length (players_s r)" r g]
  by (auto simp: update_def split_beta send_all_writes)

lemma occupied_snapshot: "occupied (snapshotPlayers r) p \<longleftrightarrow> occupied (players_s r) p"
  by (auto simp: occupied_def snapshotPlayers_def) force+

section \<open>The claims\<close>

subsection \<open>Claim C1: one room per name\<close>

lemma run_g_example:
  "run_g [0, 1, 0, 1, 2, 2] (NewGameServer_g, (\<lambda>i. 41), map Calling [''a'', ''a'', ''b''])
     = (\<lparr>rooms_g = [(''a'', 0), (''b'', 1)],
         heap_g = [\<lparr>name_g = ''a'', players_g = [], secret_g = 42\<rparr>,
                   \<lparr>name_g = ''b'', players_g = [], secret_g = 42\<rparr>]\<rparr>,
        (\<lambda>i. 41), [Returned 0, Returned 0, Returned 1])"
  by (simp add: run_g_def step_g_def getRoom_read_g_def getRoom_write_g_def NewGameServer_g_def Intn_def)

lemma getRooms_s_example:
  "getRooms_s [''a'', ''b'', ''a''] (\<lambda>i. 3) NewGameServer_s
     = ([0, 1, 0],
        \<lparr>rooms_s = [(''a'', 0), (''b'', 1)],
         heap_s = [\<lparr>name_s = ''a'', width = 20, height = 20, players_s = [], food = \<lparr>X = 3, Y = 3\<rparr>\<rparr>,
                   \<lparr>name_s = ''b'', width = 20, height = 20, players_s = [], food = \<lparr>X = 3, Y = 3\<rparr>\<rparr>]\<rparr>,
        (\<lambda>i. 3))"
  by (simp add: getRoom_s_def NewGameServer_s_def Intn_def)

text \<open>
  C1. A call of \<^verbatim>\<open>getRoom\<close> returns the pointer that is registered under the name
  when it is back, and a call that follows it for the same name returns the same
  pointer and leaves the server as it is, in the guessing game and in snake. More
  generally, let any number of callers of the guessing game's \<^verbatim>\<open>getRoom\<close> run their
  critical sections in any order, from a new server: callers that ask for the same name
  and are back hold the same pointer, which is the one registered under the name
  and points to a room of that name; no two rooms allocated have the same name,
  so one room at most was created per name; and a caller that had two turns is back.
  The snake server holds its mutex for the whole of \<^verbatim>\<open>getRoom\<close>, so its calls run one
  after the other: equal names get equal pointers there too, and no two rooms allocated
  share a name.
\<close>

theorem getRoom_same_instance:
  "(getRoom_g name g s = (a, s', g') \<longrightarrow>
        map_of (rooms_g s') name = Some a \<and> getRoom_g name g2 s' = (a, s', g2))
   \<and> (getRoom_s name g ss = (b, ss', gs') \<longrightarrow>
        map_of (rooms_s ss') name = Some b \<and> getRoom_s name g2 ss' = (b, ss', g2))
   \<and> (run_g sched (NewGameServer_g, g, map Calling ns) = (sf, gf, cs) \<longrightarrow>
        (\<forall>t<length ns. \<forall>u<length ns. \<forall>x y.
            ns ! t = ns ! u \<and> cs ! t = Returned x \<and> cs ! u = Returned y \<longrightarrow> x = y)
        \<and> (\<forall>t<length ns. \<forall>x. cs ! t = Returned x \<longrightarrow>
              map_of (rooms_g sf) (ns ! t) = Some x \<and> x < length (heap_g sf) \<and> name_g (heap_g sf ! x) = ns ! t)
        \<and> distinct (map name_g (heap_g sf))
        \<and> (\<forall>t<length ns. 2 \<le> count_list sched t \<longrightarrow> (\<exists>x. cs ! t = Returned x)))
   \<and> (getRooms_s ns g NewGameServer_s = (bs, sfs, gfs) \<longrightarrow>
        length bs = length ns
        \<and> (\<forall>i<length ns. \<forall>j<length ns. ns ! i = ns ! j \<longrightarrow> bs ! i = bs ! j)
        \<and> (\<forall>i<length ns. map_of (rooms_s sfs) (ns ! i) = Some (bs ! i)
              \<and> bs ! i < length (heap_s sfs) \<and> name_s (heap_s sfs ! (bs ! i)) = ns ! i)
        \<and> distinct (map name_s (heap_s sfs)))"
proof -
  have 1: "map_of (rooms_g s') name = Some a \<and> getRoom_g name g2 s' = (a, s', g2)"
    if "getRoom_g name g s = (a, s', g')"
    using that getRoom_g_result [of name g s] getRoom_g_again [OF that, of g2] by simp
  have 2: "map_of (rooms_s ss') name = Some b \<and> getRoom_s name g2 ss' = (b, ss', g2)"
    if "getRoom_s name g ss = (b, ss', gs')"
    using that getRoom_s_result [of name g ss] getRoom_s_again [OF that, of g2] by simp
  have 3: "(\<forall>t<length ns. \<forall>u<length ns. \<forall>x y.
            ns ! t = ns ! u \<and> cs ! t = Returned x \<and> cs ! u = Returned y \<longrightarrow> x = y)
        \<and> (\<forall>t<length ns. \<forall>x. cs ! t = Returned x \<longrightarrow>
              map_of (rooms_g sf) (ns ! t) = Some x \<and> x < length (heap_g sf) \<and> name_g (heap_g sf ! x) = ns ! t)
        \<and> distinct (map name_g (heap_g sf))
        \<and> (\<forall>t<length ns. 2 \<le> count_list sched t \<longrightarrow> (\<exists>x. cs ! t = Returned x))"
    if run: "run_g sched (NewGameServer_g, g, map Calling ns) = (sf, gf, cs)"
  proof -
    have "inv_g ns (run_g sched (NewGameServer_g, g, map Calling ns))"
      by (intro inv_g_run inv_g_init)
    then have inv: "inv_g ns (sf, gf, cs)" by (simp add: run)
    then have wf: "wf_g sf" and len: "length cs = length ns"
      and ok: "\<And>t. t < length ns \<Longrightarrow> call_ok ns sf t (cs ! t)"
      by (simp_all add: inv_g_alt)
    have ret: "map_of (rooms_g sf) (ns ! t) = Some x" if "t < length ns" "cs ! t = Returned x" for t x
      using ok [OF that(1)] that(2) by (simp add: call_ok_def)
    have same: "\<forall>t<length ns. \<forall>u<length ns. \<forall>x y.
            ns ! t = ns ! u \<and> cs ! t = Returned x \<and> cs ! u = Returned y \<longrightarrow> x = y"
    proof (intro allI impI)
      fix t u x y
      assume t: "t < length ns" and u: "u < length ns"
        and h: "ns ! t = ns ! u \<and> cs ! t = Returned x \<and> cs ! u = Returned y"
      from ret [OF t, of x] h have "map_of (rooms_g sf) (ns ! t) = Some x" by simp
      moreover from ret [OF u, of y] h have "map_of (rooms_g sf) (ns ! t) = Some y" by simp
      ultimately show "x = y" by simp
    qed
    have inst: "\<forall>t<length ns. \<forall>x. cs ! t = Returned x \<longrightarrow>
              map_of (rooms_g sf) (ns ! t) = Some x \<and> x < length (heap_g sf) \<and> name_g (heap_g sf ! x) = ns ! t"
      using ret wf_g_lookup [OF wf] by blast
    have dis: "distinct (map name_g (heap_g sf))"
      using wf by (simp add: wf_g_def wf_reg_def)
    have prog: "\<exists>x. cs ! t = Returned x" if "t < length ns" "2 \<le> count_list sched t" for t
    proof -
      from that(1) have "t < length (snd (snd (NewGameServer_g, g, map Calling ns)))" by simp
      from run_g_rank [OF this, of sched] that
      have "2 \<le> rank (cs ! t)" by (simp add: run)
      then show ?thesis by (rule rank_2)
    qed
    from same inst dis prog show ?thesis by blast
  qed
  have 4: "length bs = length ns
        \<and> (\<forall>i<length ns. \<forall>j<length ns. ns ! i = ns ! j \<longrightarrow> bs ! i = bs ! j)
        \<and> (\<forall>i<length ns. map_of (rooms_s sfs) (ns ! i) = Some (bs ! i)
              \<and> bs ! i < length (heap_s sfs) \<and> name_s (heap_s sfs ! (bs ! i)) = ns ! i)
        \<and> distinct (map name_s (heap_s sfs))"
    if run: "getRooms_s ns g NewGameServer_s = (bs, sfs, gfs)"
  proof -
    from getRooms_s_inv [OF wf_s_init run]
    have wf: "wf_s sfs" and len: "length bs = length ns"
      and reg: "\<And>i. i < length ns \<Longrightarrow> map_of (rooms_s sfs) (ns ! i) = Some (bs ! i)"
      by auto
    have same: "\<forall>i<length ns. \<forall>j<length ns. ns ! i = ns ! j \<longrightarrow> bs ! i = bs ! j"
      using reg by (metis option.inject)
    have inst: "\<forall>i<length ns. map_of (rooms_s sfs) (ns ! i) = Some (bs ! i)
              \<and> bs ! i < length (heap_s sfs) \<and> name_s (heap_s sfs ! (bs ! i)) = ns ! i"
      using reg wf_s_lookup [OF wf] by blast
    have dis: "distinct (map name_s (heap_s sfs))"
      using wf by (simp add: wf_s_def wf_reg_def)
    from len same inst dis show ?thesis by blast
  qed
  from 1 2 3 4 show ?thesis by blast
qed

theorem getRoom_same_instance_witness:
  "snd (snd (run_g [0, 1, 0, 1, 2, 2] (NewGameServer_g, (\<lambda>i. 41), map Calling [''a'', ''a'', ''b''])))
      = [Returned 0, Returned 0, Returned 1]
   \<and> distinct (map name_g (heap_g (fst (run_g [0, 1, 0, 1, 2, 2]
          (NewGameServer_g, (\<lambda>i. 41), map Calling [''a'', ''a'', ''b''])))))
   \<and> getRoom_g ''a'' (\<lambda>i. 7) (fst (run_g [0, 1, 0, 1, 2, 2]
          (NewGameServer_g, (\<lambda>i. 41), map Calling [''a'', ''a'', ''b''])))
      = (0, fst (run_g [0, 1, 0, 1, 2, 2]
          (NewGameServer_g, (\<lambda>i. 41), map Calling [''a'', ''a'', ''b''])), (\<lambda>i. 7))
   \<and> fst (getRooms_s [''a'', ''b'', ''a''] (\<lambda>i. 3) NewGameServer_s) = [0, 1, 0]
   \<and> distinct (map name_s (heap_s (fst (snd (getRooms_s [''a'', ''b'', ''a''] (\<lambda>i. 3) NewGameServer_s)))))
   \<and> getRoom_s ''b'' (\<lambda>i. 7) (fst (snd (getRooms_s [''a'', ''b'', ''a''] (\<lambda>i. 3) NewGameServer_s)))
      = (1, fst (snd (getRooms_s [''a'', ''b'', ''a''] (\<lambda>i. 3) NewGameServer_s)), (\<lambda>i. 7))"
proof -
  let ?st = "run_g [0, 1, 0, 1, 2, 2] (NewGameServer_g, (\<lambda>i. 41), map Calling [''a'', ''a'', ''b''])"
  let ?sq = "getRooms_s [''a'', ''b'', ''a''] (\<lambda>i. 3) NewGameServer_s"
  have e: "?st = (fst ?st, fst (snd ?st), snd (snd ?st))" by simp
  have d: "distinct (map name_g (heap_g (fst ?st)))"
    using getRoom_same_instance [THEN conjunct2, THEN conjunct2, THEN conjunct1, THEN mp, OF e]
    by blast
  have c: "snd (snd ?st) = [Returned 0, Returned 0, Returned 1]"
    unfolding run_g_example by simp
  have "getRoom_g ''a'' (\<lambda>i. 5) (fst ?st) = (0, fst ?st, (\<lambda>i. 5))"
    unfolding run_g_example by (simp add: getRoom_g_def getRoom_read_g_def)
  then have a: "getRoom_g ''a'' (\<lambda>i. 7) (fst ?st) = (0, fst ?st, (\<lambda>i. 7))"
    using getRoom_same_instance [THEN conjunct1, THEN mp] by blast
  have e': "?sq = (fst ?sq, fst (snd ?sq), snd (snd ?sq))" by simp
  have d': "distinct (map name_s (heap_s (fst (snd ?sq))))"
    using getRoom_same_instance [THEN conjunct2, THEN conjunct2, THEN conjunct2, THEN mp, OF e']
    by blast
  have c': "fst ?sq = [0, 1, 0]"
    unfolding getRooms_s_example by simp
  have "getRoom_s ''b'' (\<lambda>i. 5) (fst (snd ?sq)) = (1, fst (snd ?sq), (\<lambda>i. 5))"
    unfolding getRooms_s_example by (simp add: getRoom_s_def)
  then have a': "getRoom_s ''b'' (\<lambda>i. 7) (fst (snd ?sq)) = (1, fst (snd ?sq), (\<lambda>i. 7))"
    using getRoom_same_instance [THEN conjunct2, THEN conjunct1, THEN mp] by blast
  from c d a c' d' a' show ?thesis by blast
qed

subsection \<open>Claim C2: the replies to a guess\<close>

lemma room42_wf:
  "distinct (map (\<lambda>(k, p). id_g p) (players_g room42))"
  "(''P1'', \<lparr>id_g = ''P1'', conn_g = 1\<rparr>) \<in> set (players_g room42)"
  by (simp_all add: room42_def)

text \<open>
  C2. Let a member \<open>pid\<close> with connection \<open>c\<close> send the guess \<open>guess\<close> to a room with
  secret \<open>s\<close> (any \<open>s\<close>, so also every \<open>s\<close> in \<open>[1, 100]\<close>), the players of the room
  having different ids as the keys of a map do. The sender gets the too-small reply iff
  \<open>guess < s\<close> and the too-big reply iff \<open>guess > s\<close>; in both cases that single write is
  all that happens and the room is unchanged. The win notice is written iff
  \<open>guess = s\<close>, and then it goes to every member, exactly one row \<open>win\<close> is saved for
  the guesser, exactly one row \<open>lose\<close> for every other member and none for anybody
  else, the new secret is in \<open>[1, 100]\<close>, and the new-round notice goes to every member.
\<close>

theorem guess_replies:
  assumes "distinct (map (\<lambda>(k, p). id_g p) (players_g r))"
    and "(pid, \<lparr>id_g = pid, conn_g = c\<rparr>) \<in> set (players_g r)"
  shows "(WriteMessage c TooSmall \<in> set (fst (handleConnections_msg_g pid c (Some guess) r g)) \<longleftrightarrow> guess < secret_g r)
    \<and> (WriteMessage c TooBig \<in> set (fst (handleConnections_msg_g pid c (Some guess) r g)) \<longleftrightarrow> guess > secret_g r)
    \<and> (guess \<noteq> secret_g r \<longrightarrow>
          fst (handleConnections_msg_g pid c (Some guess) r g)
            = [WriteMessage c (if guess < secret_g r then TooSmall else TooBig)]
          \<and> fst (snd (handleConnections_msg_g pid c (Some guess) r g)) = r)
    \<and> ((\<exists>c'. WriteMessage c' (Correct pid (secret_g r)) \<in> set (fst (handleConnections_msg_g pid c (Some guess) r g)))
          \<longleftrightarrow> guess = secret_g r)
    \<and> (guess = secret_g r \<longrightarrow>
          (\<forall>p \<in> set (map snd (players_g r)).
              WriteMessage (conn_g p) (Correct pid (secret_g r)) \<in> set (fst (handleConnections_msg_g pid c (Some guess) r g))
              \<and> WriteMessage (conn_g p) NewRound \<in> set (fst (handleConnections_msg_g pid c (Some guess) r g)))
          \<and> count_list (fst (handleConnections_msg_g pid c (Some guess) r g)) (Exec (pid, name_g r, ''win'')) = 1
          \<and> (\<forall>q. count_list (fst (handleConnections_msg_g pid c (Some guess) r g)) (Exec (q, name_g r, ''lose''))
                 = (if q \<noteq> pid \<and> q \<in> (\<lambda>(k, p). id_g p) ` set (players_g r) then 1 else 0))
          \<and> 1 \<le> secret_g (fst (snd (handleConnections_msg_g pid c (Some guess) r g)))
          \<and> secret_g (fst (snd (handleConnections_msg_g pid c (Some guess) r g))) \<le> 100
          \<and> players_g (fst (snd (handleConnections_msg_g pid c (Some guess) r g))) = players_g r)"
proof -
  from assms(2) have mem: "c \<in> conn_g ` snd ` set (players_g r)" by force
  consider (low) "guess < secret_g r" | (high) "guess > secret_g r" | (hit) "guess = secret_g r"
    by linarith
  then show ?thesis
  proof cases
    case low
    then show ?thesis by (simp add: msg_g_low)
  next
    case high
    then show ?thesis by (simp add: msg_g_high)
  next
    case hit
    have rng: "0 \<le> fst (Intn 100 g) \<and> fst (Intn 100 g) < 100"
      by (rule Intn_range) simp
    have w: "\<exists>c'. WriteMessage c' (Correct pid (secret_g r)) \<in> set (win_effects pid r (fst (Intn 100 g)))"
      using mem by (auto simp: win_effects_writes)
    have all: "\<forall>p \<in> set (map snd (players_g r)).
        WriteMessage (conn_g p) (Correct pid (secret_g r)) \<in> set (win_effects pid r (fst (Intn 100 g)))
        \<and> WriteMessage (conn_g p) NewRound \<in> set (win_effects pid r (fst (Intn 100 g)))"
      by (auto simp: win_effects_writes)
    show ?thesis
      unfolding hit msg_g_win
      using rng w all assms(1)
      by (simp add: win_effects_count_win win_effects_count_lose win_effects_writes)
  qed
qed

theorem guess_replies_witness:
  "distinct (map (\<lambda>(k, p). id_g p) (players_g room42))
   \<and> (''P1'', \<lparr>id_g = ''P1'', conn_g = 1\<rparr>) \<in> set (players_g room42)
   \<and> fst (handleConnections_msg_g ''P1'' 1 (Some 50) room42 (\<lambda>i. 6)) = [WriteMessage 1 TooBig]
   \<and> count_list (fst (handleConnections_msg_g ''P1'' 1 (Some 42) room42 (\<lambda>i. 6))) (Exec (''P2'', ''r1'', ''lose'')) = 1
   \<and> count_list (fst (handleConnections_msg_g ''P1'' 1 (Some 42) room42 (\<lambda>i. 6))) (Exec (''P1'', ''r1'', ''lose'')) = 0"
proof -
  note a = guess_replies [OF room42_wf, of 50 "\<lambda>i. 6"]
  note b = guess_replies [OF room42_wf, of 42 "\<lambda>i. 6"]
  have s: "secret_g room42 = 42" "name_g room42 = ''r1''"
    "(\<lambda>(k, p). id_g p) ` set (players_g room42) = {''P1'', ''P2''}"
    by (auto simp: room42_def)
  from a have 1: "fst (handleConnections_msg_g ''P1'' 1 (Some 50) room42 (\<lambda>i. 6)) = [WriteMessage 1 TooBig]"
    unfolding s by simp
  from b have "\<forall>q. count_list (fst (handleConnections_msg_g ''P1'' 1 (Some 42) room42 (\<lambda>i. 6))) (Exec (q, ''r1'', ''lose''))
                 = (if q \<noteq> ''P1'' \<and> q \<in> {''P1'', ''P2''} then 1 else 0)"
    unfolding s by simp
  then have 2: "count_list (fst (handleConnections_msg_g ''P1'' 1 (Some 42) room42 (\<lambda>i. 6))) (Exec (''P2'', ''r1'', ''lose'')) = 1"
    and 3: "count_list (fst (handleConnections_msg_g ''P1'' 1 (Some 42) room42 (\<lambda>i. 6))) (Exec (''P1'', ''r1'', ''lose'')) = 0"
    by simp_all
  from room42_wf 1 2 3 show ?thesis by simp
qed

subsection \<open>Claim C3: which state the checks of a tick read\<close>

lemma chase_first_pass:
  "update_upto 1 chase g =
     (chase\<lparr>players_s :=
        [(''P2'', \<lparr>ID = ''P2'', Body = [\<lparr>X = 7, Y = 5\<rparr>], Dir = ''right'', Score = 0, Alive = True, conn_s = Some 2\<rparr>),
         (''P1'', \<lparr>ID = ''P1'', Body = [\<lparr>X = 5, Y = 5\<rparr>], Dir = ''right'', Score = 0, Alive = True, conn_s = Some 1\<rparr>)]\<rparr>,
      g, [])"
  by (simp add: update_upto_Suc update_at_def fate_of_def step_dir_def otherHit_def chase_def Let_def put_def)

lemma chase_second_pass:
  "update_upto 2 chase g =
     (chase\<lparr>players_s :=
        [(''P2'', \<lparr>ID = ''P2'', Body = [\<lparr>X = 7, Y = 5\<rparr>], Dir = ''right'', Score = 0, Alive = True, conn_s = Some 2\<rparr>),
         (''P1'', \<lparr>ID = ''P1'', Body = [\<lparr>X = 6, Y = 5\<rparr>], Dir = ''right'', Score = 0, Alive = True, conn_s = Some 1\<rparr>)]\<rparr>,
      g, [])"
proof -
  have "update_upto 2 chase g = update_at 1 (update_upto 1 chase g)"
    using update_upto_Suc [of 1 chase g] by (simp add: numeral_2_eq_2)
  then show ?thesis
    unfolding chase_first_pass
    by (simp add: update_at_def fate_of_def step_dir_def otherHit_def chase_def Let_def put_def)
qed

text \<open>
  C3, as amended. When the loop of a tick comes to the \<open>i\<close>-th snake, the table it reads
  has the entries of the end of the tick for the snakes visited before and the entries
  of the start of the tick for this snake and those visited after. So the snake's own
  state, and with it its next point and the wall and self checks (\<open>own_fate\<close>), are those
  of the start of the tick; the opponent check is made against that mixed table: against
  the bodies already advanced of the snakes visited earlier and the bodies of the start
  of the tick of the others. What the tick leaves in the snake's entry is what this pass
  leaves there.
\<close>

theorem tick_reads_live_table:
  assumes "i < length (players_s r)"
  shows "players_s (fst (update_upto i r g))
           = take i (players_s (fst (update r g))) @ drop i (players_s r)
    \<and> players_s (fst (update_upto i r g)) ! i = players_s r ! i
    \<and> players_s (fst (update r g)) ! i = players_s (fst (update_at i (update_upto i r g))) ! i
    \<and> own_fate (fst (update_upto i r g)) (snd (players_s r ! i)) = own_fate r (snd (players_s r ! i))
    \<and> fate_of (fst (update_upto i r g)) (snd (players_s r ! i))
        = fate_of (r\<lparr>players_s := take i (players_s (fst (update r g))) @ drop i (players_s r)\<rparr>)
            (snd (players_s r ! i))"
proof -
  have mixed: "players_s (fst (update_upto i r g))
           = take i (players_s (fst (update r g))) @ drop i (players_s r)"
    using assms by (intro update_upto_mixed) simp
  have own: "players_s (fst (update_upto i r g)) ! i = players_s r ! i"
    by (rule update_upto_later) simp
  have entry: "players_s (fst (update r g)) ! i = players_s (fst (update_at i (update_upto i r g))) ! i"
    using assms by (rule update_entry)
  have ownf: "own_fate (fst (update_upto i r g)) (snd (players_s r ! i)) = own_fate r (snd (players_s r ! i))"
    by (rule own_fate_cong) simp_all
  have fate: "fate_of (fst (update_upto i r g)) (snd (players_s r ! i))
        = fate_of (r\<lparr>players_s := take i (players_s (fst (update r g))) @ drop i (players_s r)\<rparr>)
            (snd (players_s r ! i))"
    by (rule fate_of_cong) (simp_all add: mixed)
  from mixed own entry ownf fate show ?thesis by blast
qed

theorem tick_reads_live_table_witness:
  "1 < length (players_s chase)
   \<and> players_s (fst (update_upto 1 chase (\<lambda>i. 0))) ! 1 = players_s chase ! 1
   \<and> fate_of (chase\<lparr>players_s := take 1 (players_s (fst (update chase (\<lambda>i. 0)))) @ drop 1 (players_s chase)\<rparr>)
         (snd (players_s chase ! 1)) = Advance \<lparr>X = 6, Y = 5\<rparr>"
proof -
  have l: "1 < length (players_s chase)"
    by (simp add: chase_def)
  have b: "fate_of (fst (update_upto 1 chase (\<lambda>i. 0))) (snd (players_s chase ! 1)) = Advance \<lparr>X = 6, Y = 5\<rparr>"
    unfolding chase_first_pass
    by (simp add: fate_of_def step_dir_def otherHit_def chase_def Let_def)
  note t = tick_reads_live_table [OF l, of "\<lambda>i. 0"]
  have own: "players_s (fst (update_upto 1 chase (\<lambda>i. 0))) ! 1 = players_s chase ! 1"
    by (rule t [THEN conjunct2, THEN conjunct1])
  have f: "fate_of (chase\<lparr>players_s := take 1 (players_s (fst (update chase (\<lambda>i. 0)))) @ drop 1 (players_s chase)\<rparr>)
         (snd (players_s chase ! 1)) = Advance \<lparr>X = 6, Y = 5\<rparr>"
    by (rule trans [OF t [THEN conjunct2, THEN conjunct2, THEN conjunct2, THEN conjunct2, symmetric] b])
  from l own f show ?thesis by blast
qed

text \<open>
  C3 as it is stated has every check read the state of the start of the tick. In the room
  \<open>chase\<close> the next point of \<open>P1\<close> is in the body that \<open>P2\<close> had at the start of the
  tick, which would be a collision; but \<open>P2\<close> has moved on when \<open>P1\<close> is checked, so
  \<open>P1\<close> advances and is alive after the tick.
\<close>

theorem tick_not_simultaneous:
  "fate_of chase (snd (players_s chase ! 1)) = OtherHit
   \<and> fate_of (fst (update_upto 1 chase (\<lambda>i. 0))) (snd (players_s chase ! 1)) = Advance \<lparr>X = 6, Y = 5\<rparr>
   \<and> Alive (snd (players_s (fst (update chase (\<lambda>i. 0))) ! 1))
   \<and> Body (snd (players_s (fst (update chase (\<lambda>i. 0))) ! 1)) = [\<lparr>X = 6, Y = 5\<rparr>]"
proof -
  have a: "fate_of chase (snd (players_s chase ! 1)) = OtherHit"
    by (simp add: fate_of_def step_dir_def otherHit_def chase_def Let_def)
  have b: "fate_of (fst (update_upto 1 chase (\<lambda>i. 0))) (snd (players_s chase ! 1)) = Advance \<lparr>X = 6, Y = 5\<rparr>"
    unfolding chase_first_pass
    by (simp add: fate_of_def step_dir_def otherHit_def chase_def Let_def)
  have len: "length (players_s chase) = 2"
    by (simp add: chase_def)
  have "fst (update chase (\<lambda>i. 0)) = fst (update_upto 2 chase (\<lambda>i. 0))"
    by (simp only: update_room len)
  then have c: "Alive (snd (players_s (fst (update chase (\<lambda>i. 0))) ! 1))"
    and d: "Body (snd (players_s (fst (update chase (\<lambda>i. 0))) ! 1)) = [\<lparr>X = 6, Y = 5\<rparr>]"
    unfolding chase_second_pass by simp_all
  from a b c d show ?thesis by blast
qed

subsection \<open>Claim C4: eating, and where the food is afterwards\<close>

lemma randomEmptyCell_loop_const:
  "occupied (players_s r) \<lparr>X = int k mod width r, Y = int k mod height r\<rparr> \<Longrightarrow>
   randomEmptyCell_loop n r (\<lambda>i. k) = (food r, \<lambda>i. k)"
  by (induction n) (simp_all add: Intn_def)

lemma meal_fate: "fate_of meal (snd (players_s meal ! 0)) = Advance (food meal)"
  by (simp add: meal_def fate_of_def step_dir_def otherHit_def Let_def)

lemma meal_fed: "put 0 (fed (snd (players_s meal ! 0)) (food meal)) meal = meal_eaten"
  by (simp add: meal_def meal_eaten_def put_def fed_def)

lemma meal_loop:
  "update_upto 1 meal g =
     (meal_eaten\<lparr>food := fst (randomEmptyCell meal_eaten g)\<rparr>, snd (randomEmptyCell meal_eaten g), [])"
  using update_at_eat [OF meal_fate, of g "[]"] update_upto_Suc [of 0 meal g]
  unfolding meal_fed by simp

lemma meal_fallback: "randomEmptyCell meal_eaten (\<lambda>i. 5) = (\<lparr>X = 5, Y = 5\<rparr>, \<lambda>i. 5)"
proof -
  have "occupied (players_s meal_eaten) \<lparr>X = int 5 mod width meal_eaten, Y = int 5 mod height meal_eaten\<rparr>"
    by (simp add: meal_eaten_def occupied_def)
  from randomEmptyCell_loop_const [OF this, of 200] show ?thesis
    by (simp add: randomEmptyCell_def meal_eaten_def)
qed

lemma meal_update_5:
  "update meal (\<lambda>i. 5) =
     (meal_eaten, \<lambda>i. 5,
      [WriteMessage 7 (State [(''P1'', \<lparr>ID = ''P1'', Body = [\<lparr>X = 5, Y = 5\<rparr>, \<lparr>X = 5, Y = 5\<rparr>], Dir = ''right'',
                                         Score = 1, Alive = True, conn_s = None\<rparr>)]
                             \<lparr>X = 5, Y = 5\<rparr> ''r1'' 20 20)])"
proof -
  have len: "length (players_s meal) = 1" by (simp add: meal_def)
  have "meal_eaten\<lparr>food := \<lparr>X = 5, Y = 5\<rparr>\<rparr> = meal_eaten" by (simp add: meal_eaten_def)
  then have u: "update_upto (length (players_s meal)) meal (\<lambda>i. 5) = (meal_eaten, \<lambda>i. 5, [])"
    unfolding len meal_loop meal_fallback by simp
  show ?thesis
    unfolding update_def u by (simp add: send_all_def snapshotPlayers_def meal_eaten_def)
qed

lemma meal_eaten_drawn:
  "drawn meal_eaten (\<lambda>i. if i < 2 then 5 else 7) 0 = \<lparr>X = 5, Y = 5\<rparr>"
  "drawn meal_eaten (\<lambda>i. if i < 2 then 5 else 7) (Suc 0) = \<lparr>X = 7, Y = 7\<rparr>"
  by (simp_all add: draw_def Intn_def meal_eaten_def)

lemma meal_eaten_occupied:
  "occupied (players_s meal_eaten) \<lparr>X = 5, Y = 5\<rparr>"
  "\<not> occupied (players_s meal_eaten) \<lparr>X = 7, Y = 7\<rparr>"
  by (simp_all add: occupied_def meal_eaten_def)

lemma meal_once: "update meal g = (case update_upto (Suc 0) meal g of (r', g', es) \<Rightarrow>
     (r', g', es @ send_all (State (snapshotPlayers r') (food r') (name_s r') (width r') (height r')) (players_s r')))"
  by (simp add: update_def meal_def)

lemma crowd_dead: "e \<in> set crowd \<Longrightarrow> \<not> Alive (snd e) \<and> \<lparr>X = 5, Y = 5\<rparr> \<notin> set (Body (snd e))"
  by (auto simp: crowd_def bystander_def)

lemma crowd_covers:
  "p \<in> set (cells 20 20) \<Longrightarrow> p \<noteq> \<lparr>X = 5, Y = 5\<rparr> \<Longrightarrow> occupied crowd p"
  unfolding occupied_def crowd_def
  by (auto simp: bystander_def image_iff intro!: bexI [of _ "bystander p"])

lemma crowded_eaten_full: "p \<in> set (cells 20 20) \<Longrightarrow> occupied (players_s crowded_eaten) p"
  using crowd_covers [of p] by (cases "p = \<lparr>X = 5, Y = 5\<rparr>") (auto simp: crowded_eaten_def occupied_def)

lemma crowded_fate: "fate_of crowded (snd (players_s crowded ! 0)) = Advance (food crowded)"
  using crowd_dead by (auto simp: crowded_def fate_of_def step_dir_def otherHit_def Let_def)

lemma crowded_fed: "put 0 (fed (snd (players_s crowded ! 0)) (food crowded)) crowded = crowded_eaten"
  by (simp add: crowded_def crowded_eaten_def put_def fed_def)

lemma crowded_draw: "fst (randomEmptyCell crowded_eaten g) = \<lparr>X = 5, Y = 5\<rparr>"
proof -
  have "\<forall>k<200. occupied (players_s crowded_eaten) (drawn crowded_eaten g k)"
    using drawn_in_grid [of crowded_eaten g] crowded_eaten_full by (simp add: crowded_eaten_def)
  then have "fst (randomEmptyCell crowded_eaten g) = food crowded_eaten"
    by (rule randomEmptyCell_none)
  then show ?thesis by (simp add: crowded_eaten_def)
qed

lemma crowded_first_pass: "fst (update_upto (Suc 0) crowded g) = crowded_eaten"
proof -
  have "crowded_eaten\<lparr>food := \<lparr>X = 5, Y = 5\<rparr>\<rparr> = crowded_eaten" by (simp add: crowded_eaten_def)
  then show ?thesis
    using update_at_eat [OF crowded_fate, of g "[]"] update_upto_Suc [of 0 crowded g]
    unfolding crowded_fed crowded_draw by simp
qed

lemma crowded_update: "fst (update crowded g) = crowded_eaten"
proof -
  have "\<forall>j. Suc 0 \<le> j \<and> j < length (players_s crowded) \<longrightarrow> \<not> Alive (snd (players_s crowded ! j))"
  proof (intro allI impI)
    fix j assume j: "Suc 0 \<le> j \<and> j < length (players_s crowded)"
    then have "players_s crowded ! j = crowd ! (j - 1)" "j - 1 < length crowd"
      by (auto simp: crowded_def nth_Cons split: nat.splits)
    then have "players_s crowded ! j \<in> set crowd" by simp
    then show "\<not> Alive (snd (players_s crowded ! j))" using crowd_dead by blast
  qed
  moreover have "Suc 0 \<le> length (players_s crowded)" by (simp add: crowded_def)
  ultimately have "fst (update_upto (length (players_s crowded)) crowded g) = fst (update_upto (Suc 0) crowded g)"
    by (rule update_upto_all_dead)
  then show ?thesis by (simp add: update_room crowded_first_pass)
qed

lemma crowded_sent:
  "WriteMessage 1 (State (snapshotPlayers crowded_eaten) \<lparr>X = 5, Y = 5\<rparr> ''r1'' 20 20)
     \<in> set (snd (snd (update crowded g)))"
proof -
  have "snd (snd (update crowded g))
      = snd (snd (update_upto (length (players_s crowded)) crowded g))
        @ send_all (State (snapshotPlayers (fst (update crowded g))) (food (fst (update crowded g)))
                      (name_s (fst (update crowded g))) (width (fst (update crowded g)))
                      (height (fst (update crowded g))))
            (players_s (fst (update crowded g)))"
    by (simp add: update_def split_beta)
  moreover have "Some 1 \<in> conn_s ` snd ` set (players_s crowded_eaten)"
    by (simp add: crowded_eaten_def image_iff)
  ultimately show ?thesis
    unfolding crowded_update by (simp add: send_all_writes) (simp add: crowded_eaten_def)
qed




subsection \<open>Claim C5: when a round is resolved, and how\<close>

lemma two_r_scissors_recorded:
  "players_r (recorded ''Player1'' 1 ''rock'' two_r_scissors) =
     [(''Player1'', \<lparr>id_r = ''Player1'', conn_r = 1, move_r = ''rock''\<rparr>),
      (''Player2'', \<lparr>id_r = ''Player2'', conn_r = 2, move_r = ''scissors''\<rparr>)]"
  by (simp add: recorded_def two_r_scissors_def set_own_move_def)

lemma two_r_scissors_silent:
  "players_r (recorded ''Player1'' 1 [] two_r_scissors) = players_r two_r_scissors"
  by (simp add: recorded_def two_r_scissors_def set_own_move_def)

text \<open>
  C5. A result is announced exactly when the room has two members and, with the
  inbound move recorded, both have a move (\<open>fires\<close>); so never with 0, 1, 3 or more
  members. When it is, the result of \<^verbatim>\<open>decide\<close> on the two players is written to every
  member and all moves are empty afterwards; when it is not, the room is just the room
  with the move recorded. For moves among rock, paper and scissors \<^verbatim>\<open>decide\<close> answers
  a tie exactly for equal moves and otherwise names the player whose move beats the
  other one's.
\<close>

theorem rps_resolution:
  "((\<exists>c' v. WriteMessage c' (Result_r v) \<in> set (fst (handleConnections_msg_r fails pid c mv r)))
       \<longleftrightarrow> fires pid c mv r)
   \<and> (fires pid c mv r \<longrightarrow>
        (\<forall>p \<in> set (map snd (players_r r)).
           WriteMessage (conn_r p)
             (Result_r (decide (snd (players_r (recorded pid c mv r) ! 0))
                               (snd (players_r (recorded pid c mv r) ! 1))))
           \<in> set (fst (handleConnections_msg_r fails pid c mv r)))
        \<and> (\<forall>p \<in> set (map snd (players_r (snd (handleConnections_msg_r fails pid c mv r)))). move_r p = []))
   \<and> (\<not> fires pid c mv r \<longrightarrow> snd (handleConnections_msg_r fails pid c mv r) = recorded pid c mv r)
   \<and> (valid_move (move_r p1) \<and> valid_move (move_r p2) \<longrightarrow>
        (decide p1 p2 = Tie \<longleftrightarrow> move_r p1 = move_r p2)
        \<and> (decide p1 p2 = Wins (id_r p1) \<and> beats (move_r p1) (move_r p2)
            \<or> decide p1 p2 = Wins (id_r p2) \<and> beats (move_r p2) (move_r p1)
            \<or> decide p1 p2 = Tie))"
proof -
  have a: "(\<exists>c' v. WriteMessage c' (Result_r v) \<in> set (fst (handleConnections_msg_r fails pid c mv r)))
       \<longleftrightarrow> fires pid c mv r"
    by (rule msg_r_result_iff)
  have b: "\<forall>p \<in> set (map snd (players_r r)).
           WriteMessage (conn_r p)
             (Result_r (decide (snd (players_r (recorded pid c mv r) ! 0))
                               (snd (players_r (recorded pid c mv r) ! 1))))
           \<in> set (fst (handleConnections_msg_r fails pid c mv r))" if "fires pid c mv r"
    using that conns_recorded [of pid c mv r] by (auto simp: msg_r_fires broadcast_r_writes)
  have c: "\<forall>p \<in> set (map snd (players_r (snd (handleConnections_msg_r fails pid c mv r)))). move_r p = []"
    if "fires pid c mv r"
    using that by (auto simp: msg_r_fires)
  have d: "snd (handleConnections_msg_r fails pid c mv r) = recorded pid c mv r" if "\<not> fires pid c mv r"
    using that by (simp add: msg_r_quiet)
  have e: "(decide p1 p2 = Tie \<longleftrightarrow> move_r p1 = move_r p2)
        \<and> (decide p1 p2 = Wins (id_r p1) \<and> beats (move_r p1) (move_r p2)
            \<or> decide p1 p2 = Wins (id_r p2) \<and> beats (move_r p2) (move_r p1)
            \<or> decide p1 p2 = Tie)"
    if "valid_move (move_r p1) \<and> valid_move (move_r p2)"
    using that by (auto simp: decide_def beats_def valid_move_def)
  from a b c d e show ?thesis by blast
qed

theorem rps_resolution_witness:
  "fires ''Player1'' 1 ''rock'' two_r_scissors
   \<and> WriteMessage 2 (Result_r (Wins ''Player1''))
       \<in> set (fst (handleConnections_msg_r (\<lambda>c. False) ''Player1'' 1 ''rock'' two_r_scissors))
   \<and> map (move_r \<circ> snd) (players_r (snd (handleConnections_msg_r (\<lambda>c. False) ''Player1'' 1 ''rock'' two_r_scissors)))
       = [[], []]
   \<and> \<not> fires ''Player1'' 1 [] two_r_scissors
   \<and> snd (handleConnections_msg_r (\<lambda>c. False) ''Player1'' 1 [] two_r_scissors)
       = recorded ''Player1'' 1 [] two_r_scissors
   \<and> valid_move ''rock'' \<and> valid_move ''scissors'' \<and> beats ''rock'' ''scissors''
   \<and> decide \<lparr>id_r = ''Player1'', conn_r = 1, move_r = ''rock''\<rparr>
             \<lparr>id_r = ''Player2'', conn_r = 2, move_r = ''scissors''\<rparr> \<noteq> Tie"
proof -
  let ?p1 = "\<lparr>id_r = ''Player1'', conn_r = 1, move_r = ''rock''\<rparr>"
  let ?p2 = "\<lparr>id_r = ''Player2'', conn_r = 2, move_r = ''scissors''\<rparr>"
  note t = rps_resolution [of "\<lambda>c. False" "''Player1''" 1 "''rock''" two_r_scissors ?p1 ?p2]
  note u = rps_resolution [of "\<lambda>c. False" "''Player1''" 1 "[]" two_r_scissors]
  have f: "fires ''Player1'' 1 ''rock'' two_r_scissors"
    unfolding fires_def two_r_scissors_recorded by (simp add: two_r_scissors_def)
  have m: "?p2 \<in> set (map snd (players_r two_r_scissors))"
    by (simp add: two_r_scissors_def)
  have d: "decide (snd (players_r (recorded ''Player1'' 1 ''rock'' two_r_scissors) ! 0))
                  (snd (players_r (recorded ''Player1'' 1 ''rock'' two_r_scissors) ! 1)) = Wins ''Player1''"
    unfolding two_r_scissors_recorded by (simp add: decide_def)
  from t f
  have all: "\<forall>p \<in> set (map snd (players_r two_r_scissors)).
           WriteMessage (conn_r p)
             (Result_r (decide (snd (players_r (recorded ''Player1'' 1 ''rock'' two_r_scissors) ! 0))
                               (snd (players_r (recorded ''Player1'' 1 ''rock'' two_r_scissors) ! 1))))
           \<in> set (fst (handleConnections_msg_r (\<lambda>c. False) ''Player1'' 1 ''rock'' two_r_scissors))"
    by blast
  from all m have "WriteMessage (conn_r ?p2)
             (Result_r (decide (snd (players_r (recorded ''Player1'' 1 ''rock'' two_r_scissors) ! 0))
                               (snd (players_r (recorded ''Player1'' 1 ''rock'' two_r_scissors) ! 1))))
           \<in> set (fst (handleConnections_msg_r (\<lambda>c. False) ''Player1'' 1 ''rock'' two_r_scissors))"
    by (rule bspec)
  with d have w: "WriteMessage 2 (Result_r (Wins ''Player1''))
       \<in> set (fst (handleConnections_msg_r (\<lambda>c. False) ''Player1'' 1 ''rock'' two_r_scissors))"
    by simp
  have nf: "\<not> fires ''Player1'' 1 [] two_r_scissors"
    unfolding fires_def two_r_scissors_silent by (simp add: two_r_scissors_def)
  with u have q: "snd (handleConnections_msg_r (\<lambda>c. False) ''Player1'' 1 [] two_r_scissors)
       = recorded ''Player1'' 1 [] two_r_scissors"
    by blast
  have v: "valid_move ''rock''" "valid_move ''scissors''" "beats ''rock'' ''scissors''"
    by (simp_all add: valid_move_def beats_def)
  from t v have "decide ?p1 ?p2 = Tie \<longleftrightarrow> move_r ?p1 = move_r ?p2"
    by simp
  then have nt: "decide ?p1 ?p2 \<noteq> Tie" by simp
  have "players_r (snd (handleConnections_msg_r (\<lambda>c. False) ''Player1'' 1 ''rock'' two_r_scissors))
      = map (\<lambda>(k, p). (k, p\<lparr>move_r := []\<rparr>)) (players_r (recorded ''Player1'' 1 ''rock'' two_r_scissors))"
    unfolding msg_r_fires [OF f] by simp
  then have cl: "map (move_r \<circ> snd) (players_r (snd (handleConnections_msg_r (\<lambda>c. False) ''Player1'' 1 ''rock'' two_r_scissors)))
       = [[], []]"
    unfolding two_r_scissors_recorded by simp
  from f w cl nf q v nt show ?thesis by blast
qed

subsection \<open>Claim C6: a failed send during a broadcast\<close>

text \<open>
  C6, as amended. In every variant a failed write does not stop the loop: each member is
  written to, so the members that got the message are exactly the members whose write
  did not fail. What happens to the failing member differs. The two chat servers print
  the error, close the connection and delete the member (the clients left are those
  whose write succeeded). Rock-paper-scissors prints the error and keeps the member.
  Number guessing and snake drop the error: nothing is printed and the member stays.
\<close>

theorem broadcast_send_failure:
  "(received fails (fst (start fails msg room)) msg = {c \<in> fst ` set (clients room). \<not> fails c}
    \<and> (\<forall>c. Println c \<in> set (fst (start fails msg room)) \<longleftrightarrow> c \<in> fst ` set (clients room) \<and> fails c)
    \<and> (\<forall>c. Close c \<in> set (fst (start fails msg room)) \<longleftrightarrow> c \<in> fst ` set (clients room) \<and> fails c)
    \<and> clients (snd (start fails msg room)) = filter (\<lambda>e. \<not> fails (fst e)) (clients room))
   \<and> (received fails (fst (start_c fails msg room_c)) msg = {c \<in> fst ` set (clients_c room_c). \<not> fails c}
    \<and> (\<forall>c. Println c \<in> set (fst (start_c fails msg room_c)) \<longleftrightarrow> c \<in> fst ` set (clients_c room_c) \<and> fails c)
    \<and> (\<forall>c. Close c \<in> set (fst (start_c fails msg room_c)) \<longleftrightarrow> c \<in> fst ` set (clients_c room_c) \<and> fails c)
    \<and> clients_c (snd (start_c fails msg room_c)) = filter (\<lambda>e. \<not> fails (fst e)) (clients_c room_c))
   \<and> (received fails (broadcast_r fails m_r room_r) m_r = {c \<in> conn_r ` snd ` set (players_r room_r). \<not> fails c}
    \<and> (\<forall>c. Println c \<in> set (broadcast_r fails m_r room_r) \<longleftrightarrow> c \<in> conn_r ` snd ` set (players_r room_r) \<and> fails c)
    \<and> (\<forall>c. Close c \<notin> set (broadcast_r fails m_r room_r))
    \<and> map fst (players_r (snd (handleConnections_msg_r fails pid_r c_r mv room_r))) = map fst (players_r room_r))
   \<and> (received fails (broadcast_g m_g room_g) m_g = {c \<in> conn_g ` snd ` set (players_g room_g). \<not> fails c}
    \<and> (\<forall>c. Println c \<notin> set (broadcast_g m_g room_g))
    \<and> (\<forall>c. Close c \<notin> set (broadcast_g m_g room_g))
    \<and> players_g (fst (snd (handleConnections_msg_g pid_g c_g scan room_g g))) = players_g room_g)
   \<and> (received fails (send_all m_s (players_s room_s)) m_s
          = {c. Some c \<in> conn_s ` snd ` set (players_s room_s) \<and> \<not> fails c}
    \<and> (\<forall>c. Println c \<notin> set (send_all m_s (players_s room_s)))
    \<and> (\<forall>c. Close c \<notin> set (send_all m_s (players_s room_s)))
    \<and> map fst (players_s (fst (update room_s g'))) = map fst (players_s room_s))"
proof -
  have chat: "received fails (fst (start fails msg room)) msg = {c \<in> fst ` set (clients room). \<not> fails c}
      \<and> (\<forall>c. Println c \<in> set (fst (start fails msg room)) \<longleftrightarrow> c \<in> fst ` set (clients room) \<and> fails c)
      \<and> (\<forall>c. Close c \<in> set (fst (start fails msg room)) \<longleftrightarrow> c \<in> fst ` set (clients room) \<and> fails c)
      \<and> clients (snd (start fails msg room)) = filter (\<lambda>e. \<not> fails (fst e)) (clients room)"
    by (simp add: start_fst start_snd received_start_range start_range_logs start_range_closes start_range_keeps)
  have chat_c: "received fails (fst (start_c fails msg room_c)) msg = {c \<in> fst ` set (clients_c room_c). \<not> fails c}
      \<and> (\<forall>c. Println c \<in> set (fst (start_c fails msg room_c)) \<longleftrightarrow> c \<in> fst ` set (clients_c room_c) \<and> fails c)
      \<and> (\<forall>c. Close c \<in> set (fst (start_c fails msg room_c)) \<longleftrightarrow> c \<in> fst ` set (clients_c room_c) \<and> fails c)
      \<and> clients_c (snd (start_c fails msg room_c)) = filter (\<lambda>e. \<not> fails (fst e)) (clients_c room_c)"
    by (simp add: start_c_fst start_c_snd received_start_range start_range_logs start_range_closes start_range_keeps)
  have rps: "received fails (broadcast_r fails m_r room_r) m_r = {c \<in> conn_r ` snd ` set (players_r room_r). \<not> fails c}
      \<and> (\<forall>c. Println c \<in> set (broadcast_r fails m_r room_r) \<longleftrightarrow> c \<in> conn_r ` snd ` set (players_r room_r) \<and> fails c)
      \<and> (\<forall>c. Close c \<notin> set (broadcast_r fails m_r room_r))
      \<and> map fst (players_r (snd (handleConnections_msg_r fails pid_r c_r mv room_r))) = map fst (players_r room_r)"
    by (simp only: received_broadcast_r broadcast_r_logs broadcast_r_no_close handleConnections_msg_r_keys) simp
  have guess: "received fails (broadcast_g m_g room_g) m_g = {c \<in> conn_g ` snd ` set (players_g room_g). \<not> fails c}
      \<and> (\<forall>c. Println c \<notin> set (broadcast_g m_g room_g))
      \<and> (\<forall>c. Close c \<notin> set (broadcast_g m_g room_g))
      \<and> players_g (fst (snd (handleConnections_msg_g pid_g c_g scan room_g g))) = players_g room_g"
    by (simp only: received_broadcast_g broadcast_g_no_log handleConnections_msg_g_players) simp
  have snake: "received fails (send_all m_s (players_s room_s)) m_s
          = {c. Some c \<in> conn_s ` snd ` set (players_s room_s) \<and> \<not> fails c}
      \<and> (\<forall>c. Println c \<notin> set (send_all m_s (players_s room_s)))
      \<and> (\<forall>c. Close c \<notin> set (send_all m_s (players_s room_s)))
      \<and> map fst (players_s (fst (update room_s g'))) = map fst (players_s room_s)"
    by (simp only: received_send_all send_all_no_log update_keys) simp
  from chat chat_c rps guess snake show ?thesis by blast
qed

theorem broadcast_send_failure_witness:
  "received (\<lambda>c. c = 2) (fst (start (\<lambda>c. c = 2) ''hi'' \<lparr>clients = [(1, True), (2, True), (3, True)]\<rparr>)) ''hi'' = {1, 3}
   \<and> clients (snd (start (\<lambda>c. c = 2) ''hi'' \<lparr>clients = [(1, True), (2, True), (3, True)]\<rparr>)) = [(1, True), (3, True)]
   \<and> Close 2 \<in> set (fst (start (\<lambda>c. c = 2) ''hi'' \<lparr>clients = [(1, True), (2, True), (3, True)]\<rparr>))
   \<and> Close 1 \<notin> set (fst (start (\<lambda>c. c = 2) ''hi'' \<lparr>clients = [(1, True), (2, True), (3, True)]\<rparr>))
   \<and> Println 2 \<in> set (broadcast_r (\<lambda>c. c = 2) (Played_r ''Player1'' ''rock'') two_r)"
  using broadcast_send_failure [of "\<lambda>c. c = 2" "''hi''" "\<lparr>clients = [(1, True), (2, True), (3, True)]\<rparr>"
      "\<lparr>name_c = ''r'', clients_c = []\<rparr>" "Played_r ''Player1'' ''rock''" two_r]
  by (auto simp: two_r_def)

text \<open>
  C6 as it is stated has the failing member logged in every variant and removed at once
  in the chat and rock-paper-scissors variants. In the rock-paper-scissors room below
  the write to the second player fails; the failure is printed and the player is still a
  member afterwards. In the guessing room the broadcast is two writes and no printed
  line, whichever of them fails.
\<close>

theorem rps_failing_member_stays:
  "(\<lambda>c. c = 2) (2::nat)
   \<and> WriteMessage 2 (Played_r ''Player1'' ''rock'') \<in> set (fst (handleConnections_msg_r (\<lambda>c. c = 2) ''Player1'' 1 ''rock'' two_r))
   \<and> Println 2 \<in> set (fst (handleConnections_msg_r (\<lambda>c. c = 2) ''Player1'' 1 ''rock'' two_r))
   \<and> map fst (players_r (snd (handleConnections_msg_r (\<lambda>c. c = 2) ''Player1'' 1 ''rock'' two_r))) = [''Player1'', ''Player2'']
   \<and> broadcast_g NewRound \<lparr>name_g = ''r1'', players_g =
        [(''P1'', \<lparr>id_g = ''P1'', conn_g = 1\<rparr>), (''P2'', \<lparr>id_g = ''P2'', conn_g = 2\<rparr>)], secret_g = 42\<rparr>
       = [WriteMessage 1 NewRound, WriteMessage 2 NewRound]"
  by (simp add: handleConnections_msg_r_def two_r_def set_own_move_def broadcast_r_def
      broadcast_g_def)

subsection \<open>Claim C7: a join followed by the leave of the same player\<close>

lemma after_one_left_g_players:
  "players_g after_one_left_g = [(''P2'', \<lparr>id_g = ''P2'', conn_g = 2\<rparr>)]"
  by (simp add: after_one_left_g_def handleConnections_join_g_def handleConnections_leave_g_def Let_def)

lemma after_one_left_s_players:
  "players_s after_one_left_s =
     [(''P2'', \<lparr>ID = ''P2'', Body = [\<lparr>X = 3, Y = 3\<rparr>], Dir = ''right'', Score = 0, Alive = True, conn_s = Some 2\<rparr>)]"
  by (simp add: after_one_left_s_def empty_s_def handleWS_join_def handleWS_leave_def Let_def Intn_def)

text \<open>
  C7 does not hold of the code. The id of a joining client is computed from the number
  of members, so in a room whose only member is \<open>P2\<close> the next client is called \<open>P2\<close>
  again: the join overwrites the entry of the member \<open>P2\<close>, and the leave that follows
  deletes it. The room that had one member before the join has none after the leave,
  in the guessing game and in snake alike. (\<open>join_leave_fresh_g\<close> and
  \<open>join_leave_fresh_s\<close> show that the membership is restored whenever the computed
  id is not in use.)
\<close>

theorem join_leave_collision:
  "players_g after_one_left_g = [(''P2'', \<lparr>id_g = ''P2'', conn_g = 2\<rparr>)]
   \<and> fst (handleConnections_join_g 3 after_one_left_g) = ''P2''
   \<and> players_g (snd (snd (handleConnections_join_g 3 after_one_left_g))) = [(''P2'', \<lparr>id_g = ''P2'', conn_g = 3\<rparr>)]
   \<and> players_g (snd (handleConnections_leave_g (fst (handleConnections_join_g 3 after_one_left_g)) 3
         (snd (snd (handleConnections_join_g 3 after_one_left_g))))) = []
   \<and> map fst (players_s after_one_left_s) = [''P2'']
   \<and> fst (handleWS_join 3 after_one_left_s (\<lambda>i. 3)) = ''P2''
   \<and> players_s (snd (handleWS_leave (fst (handleWS_join 3 after_one_left_s (\<lambda>i. 3))) 3
         \<lparr>ID = ''P2'', Body = [\<lparr>X = 3, Y = 3\<rparr>], Dir = ''right'', Score = 0, Alive = True, conn_s = Some 3\<rparr>
         (fst (snd (snd (handleWS_join 3 after_one_left_s (\<lambda>i. 3))))))) = []"
  by (simp add: handleConnections_join_g_def handleConnections_leave_g_def
      handleWS_join_def handleWS_leave_def Let_def Intn_def
      after_one_left_g_players after_one_left_s_players)

subsection \<open>Claim C8: what a chat session relays\<close>

text \<open>
  C8, as amended. In the multi-room chat every inbound text of a member is written to
  every client of the room, the sender among them, as \<open>[room] text\<close> with the text
  unchanged, and nothing else is written. The single-room chat has no room name: it
  writes the bare text to every client.
\<close>

theorem chat_relay_form:
  "(\<forall>c \<in> fst ` set (clients_c room).
       WriteMessage c (''['' @ name_c room @ ''] '' @ text) \<in> set (fst (handleConnections_msg_c fails text room)))
   \<and> (\<forall>c m. WriteMessage c m \<in> set (fst (handleConnections_msg_c fails text room))
         \<longrightarrow> m = ''['' @ name_c room @ ''] '' @ text \<and> c \<in> fst ` set (clients_c room))
   \<and> (\<forall>c \<in> fst ` set (clients room1).
       WriteMessage c text \<in> set (fst (handleConnections_msg fails text room1)))
   \<and> (\<forall>c m. WriteMessage c m \<in> set (fst (handleConnections_msg fails text room1))
         \<longrightarrow> m = text \<and> c \<in> fst ` set (clients room1))"
  by (simp add: handleConnections_msg_c_def handleConnections_msg_def start_fst start_c_fst
      start_range_writes_iff)

theorem chat_relay_form_witness:
  "WriteMessage 2 ''[r1] hi'' \<in> set (fst (handleConnections_msg_c (\<lambda>c. False) ''hi''
       \<lparr>name_c = ''r1'', clients_c = [(1, True), (2, True)]\<rparr>))
   \<and> WriteMessage 2 ''hi'' \<in> set (fst (handleConnections_msg (\<lambda>c. False) ''hi''
       \<lparr>clients = [(1, True), (2, True)]\<rparr>))"
  using chat_relay_form [of "\<lparr>name_c = ''r1'', clients_c = [(1, True), (2, True)]\<rparr>" "''hi''"
      "\<lambda>c. False" "\<lparr>clients = [(1, True), (2, True)]\<rparr>"]
  by simp

text \<open>
  C8 as it is stated wants the bracketed room name in both variants. The single-room server
  sends the text \<open>hi\<close> as \<open>hi\<close>, with no bracket before it.
\<close>

theorem chat_single_room_not_wrapped:
  "fst (handleConnections_msg (\<lambda>c. False) ''hi'' \<lparr>clients = [(1, True), (2, True)]\<rparr>)
     = [WriteMessage 1 ''hi'', WriteMessage 2 ''hi'']
   \<and> \<not> (\<exists>room. WriteMessage 1 (''['' @ room @ ''] hi'')
          \<in> set (fst (handleConnections_msg (\<lambda>c. False) ''hi'' \<lparr>clients = [(1, True), (2, True)]\<rparr>)))"
  by (simp add: handleConnections_msg_def start_def)

subsection \<open>Claim C9: a dead snake stays on the grid\<close>



subsection \<open>Claim C10: moves are not validated\<close>

lemma two_r_banana_recorded:
  "players_r (recorded ''Player1'' 1 ''lizard'' two_r_banana) =
     [(''Player1'', \<lparr>id_r = ''Player1'', conn_r = 1, move_r = ''lizard''\<rparr>),
      (''Player2'', \<lparr>id_r = ''Player2'', conn_r = 2, move_r = ''banana''\<rparr>)]"
  by (simp add: recorded_def two_r_banana_def set_own_move_def)

lemma two_r_banana_other:
  "players_r (recorded ''Player2'' 2 ''lizard'' two_r_banana) =
     [(''Player1'', \<lparr>id_r = ''Player1'', conn_r = 1, move_r = []\<rparr>),
      (''Player2'', \<lparr>id_r = ''Player2'', conn_r = 2, move_r = ''lizard''\<rparr>)]"
  by (simp add: recorded_def two_r_banana_def set_own_move_def)

text \<open>
  C10. Whatever text comes in is stored as the sender's move. For two different moves
  of which the first does not beat the second, \<^verbatim>\<open>decide\<close> names the second player;
  two different texts outside rock, paper and scissors are such a pair. In a session
  this is what is announced to every member, and the session writes nothing but the
  move announcement and the result: there is no error reply.
\<close>

theorem rps_unvalidated_moves:
  "(map_of (players_r r) pid = Some p \<and> conn_r p = c \<and> \<not> fires pid c mv r \<longrightarrow>
       map_of (players_r (snd (handleConnections_msg_r fails pid c mv r))) pid = Some (p\<lparr>move_r := mv\<rparr>))
   \<and> (move_r p1 \<noteq> move_r p2 \<and> \<not> beats (move_r p1) (move_r p2) \<longrightarrow> decide p1 p2 = Wins (id_r p2))
   \<and> (\<not> valid_move (move_r p1) \<and> \<not> valid_move (move_r p2) \<and> move_r p1 \<noteq> move_r p2
        \<longrightarrow> decide p1 p2 = Wins (id_r p2))
   \<and> (fires pid c mv r \<and> players_r (recorded pid c mv r) = [(k1, q1), (k2, q2)]
        \<and> move_r q1 \<noteq> move_r q2 \<and> \<not> beats (move_r q1) (move_r q2) \<longrightarrow>
        (\<forall>p \<in> set (map snd (players_r r)).
           WriteMessage (conn_r p) (Result_r (Wins (id_r q2)))
             \<in> set (fst (handleConnections_msg_r fails pid c mv r))))
   \<and> (\<forall>c' m. WriteMessage c' m \<in> set (fst (handleConnections_msg_r fails pid c mv r))
        \<longrightarrow> m = Played_r pid mv \<or> (\<exists>v. m = Result_r v))"
proof -
  have a: "map_of (players_r (snd (handleConnections_msg_r fails pid c mv r))) pid = Some (p\<lparr>move_r := mv\<rparr>)"
    if "map_of (players_r r) pid = Some p \<and> conn_r p = c \<and> \<not> fires pid c mv r"
    using that by (simp add: msg_r_quiet recorded_def map_of_set_own_move)
  have b: "decide p1 p2 = Wins (id_r p2)" if "move_r p1 \<noteq> move_r p2 \<and> \<not> beats (move_r p1) (move_r p2)"
    using that by (simp add: decide_second)
  have c: "decide p1 p2 = Wins (id_r p2)"
    if "\<not> valid_move (move_r p1) \<and> \<not> valid_move (move_r p2) \<and> move_r p1 \<noteq> move_r p2"
    using that by (simp add: decide_second invalid_not_beats)
  have d: "\<forall>p \<in> set (map snd (players_r r)).
           WriteMessage (conn_r p) (Result_r (Wins (id_r q2)))
             \<in> set (fst (handleConnections_msg_r fails pid c mv r))"
    if "fires pid c mv r \<and> players_r (recorded pid c mv r) = [(k1, q1), (k2, q2)]
        \<and> move_r q1 \<noteq> move_r q2 \<and> \<not> beats (move_r q1) (move_r q2)"
  proof -
    from that have "decide q1 q2 = Wins (id_r q2)" by (simp add: decide_second)
    with that conns_recorded [of pid c mv r] show ?thesis
      by (auto simp: msg_r_fires broadcast_r_writes)
  qed
  have e: "\<forall>c' m. WriteMessage c' m \<in> set (fst (handleConnections_msg_r fails pid c mv r))
        \<longrightarrow> m = Played_r pid mv \<or> (\<exists>v. m = Result_r v)"
    by (cases "fires pid c mv r") (auto simp: msg_r_fires msg_r_quiet broadcast_r_writes)
  from a b c d e show ?thesis by blast
qed

theorem rps_unvalidated_moves_witness:
  "fires ''Player1'' 1 ''lizard'' two_r_banana
   \<and> \<not> valid_move ''lizard'' \<and> \<not> valid_move ''banana''
   \<and> WriteMessage 1 (Result_r (Wins ''Player2''))
       \<in> set (fst (handleConnections_msg_r (\<lambda>c. False) ''Player1'' 1 ''lizard'' two_r_banana))
   \<and> decide \<lparr>id_r = ''Player1'', conn_r = 1, move_r = ''lizard''\<rparr>
             \<lparr>id_r = ''Player2'', conn_r = 2, move_r = ''banana''\<rparr> = Wins ''Player2''
   \<and> \<not> fires ''Player2'' 2 ''lizard'' two_r_banana
   \<and> map_of (players_r (snd (handleConnections_msg_r (\<lambda>c. False) ''Player2'' 2 ''lizard'' two_r_banana))) ''Player2''
       = Some \<lparr>id_r = ''Player2'', conn_r = 2, move_r = ''lizard''\<rparr>"
proof -
  let ?q1 = "\<lparr>id_r = ''Player1'', conn_r = 1, move_r = ''lizard''\<rparr>"
  let ?q2 = "\<lparr>id_r = ''Player2'', conn_r = 2, move_r = ''banana''\<rparr>"
  let ?p1 = "\<lparr>id_r = ''Player1'', conn_r = 1, move_r = []\<rparr>"
  note t = rps_unvalidated_moves [of two_r_banana "''Player1''" ?p1 1 "''lizard''" "\<lambda>c. False" ?q1 ?q2
      "''Player1''" ?q1 "''Player2''" ?q2]
  note u = rps_unvalidated_moves [of two_r_banana "''Player2''" ?q2 2 "''lizard''" "\<lambda>c. False"]
  have f: "fires ''Player1'' 1 ''lizard'' two_r_banana"
    unfolding fires_def two_r_banana_recorded by (simp add: two_r_banana_def)
  have v: "\<not> valid_move ''lizard''" "\<not> valid_move ''banana''"
    by (simp_all add: valid_move_def)
  have nb: "move_r ?q1 \<noteq> move_r ?q2" "\<not> beats (move_r ?q1) (move_r ?q2)"
    by (simp_all add: beats_def)
  have m: "?p1 \<in> set (map snd (players_r two_r_banana))"
    by (simp add: two_r_banana_def)
  from t f two_r_banana_recorded nb
  have "\<forall>p \<in> set (map snd (players_r two_r_banana)).
           WriteMessage (conn_r p) (Result_r (Wins (id_r ?q2)))
             \<in> set (fst (handleConnections_msg_r (\<lambda>c. False) ''Player1'' 1 ''lizard'' two_r_banana))"
    by blast
  from this m have "WriteMessage (conn_r ?p1) (Result_r (Wins (id_r ?q2)))
             \<in> set (fst (handleConnections_msg_r (\<lambda>c. False) ''Player1'' 1 ''lizard'' two_r_banana))"
    by (rule bspec)
  then have w: "WriteMessage 1 (Result_r (Wins ''Player2''))
       \<in> set (fst (handleConnections_msg_r (\<lambda>c. False) ''Player1'' 1 ''lizard'' two_r_banana))"
    by simp
  from t v have "decide ?q1 ?q2 = Wins (id_r ?q2)" by simp
  then have d: "decide ?q1 ?q2 = Wins ''Player2''" by simp
  have nf: "\<not> fires ''Player2'' 2 ''lizard'' two_r_banana"
    unfolding fires_def two_r_banana_other by (simp add: two_r_banana_def)
  have "map_of (players_r two_r_banana) ''Player2'' = Some ?q2 \<and> conn_r ?q2 = 2"
    by (simp add: two_r_banana_def)
  with u nf have "map_of (players_r (snd (handleConnections_msg_r (\<lambda>c. False) ''Player2'' 2 ''lizard'' two_r_banana))) ''Player2''
       = Some (?q2\<lparr>move_r := ''lizard''\<rparr>)"
    by blast
  then have s: "map_of (players_r (snd (handleConnections_msg_r (\<lambda>c. False) ''Player2'' 2 ''lizard'' two_r_banana))) ''Player2''
       = Some \<lparr>id_r = ''Player2'', conn_r = 2, move_r = ''lizard''\<rparr>"
    by simp
  from f v w d nf s show ?thesis by blast
qed

end
